theory Spec2Isabelle
  imports Main "HOL-Library.Word"
begin

section \<open>JavaScript strings\<close>

text \<open>
  A JavaScript string is a sequence of UTF-16 code units. \<open>length\<close>, \<open>slice\<close>, \<open>trim\<close> and
  the regular expressions of \<^verbatim>\<open>src/utl.ts\<close> (none of which carries the \<^verbatim>\<open>u\<close> flag) all work on
  code units, so a string is a list of 16-bit words. \<open>js\<close> embeds an ASCII literal.
\<close>

type_synonym jschar = "16 word"
type_synonym jsstring = "jschar list"

definition js :: "string \<Rightarrow> jsstring" where
  "js cs = map of_char cs"

definition LF :: jschar where
  "LF = 0x0A"

definition CR :: jschar where
  "CR = 0x0D"

definition DQ :: jschar where
  "DQ = 0x22"

text \<open>ECMAScript \<open>LineTerminator\<close>: what \<^verbatim>\<open>.\<close> refuses and what \<^verbatim>\<open>^\<close>, \<^verbatim>\<open>$\<close> look at under \<^verbatim>\<open>/m\<close>.\<close>

definition isLineTerminator :: "jschar \<Rightarrow> bool" where
  "isLineTerminator c = (c = 0x0A \<or> c = 0x0D \<or> c = 0x2028 \<or> c = 0x2029)"

text \<open>ECMAScript \<open>WhiteSpace\<close> and \<open>LineTerminator\<close>: the class \<^verbatim>\<open>\s\<close>, and what \<open>trim\<close> removes.\<close>

definition isWhiteSpace :: "jschar \<Rightarrow> bool" where
  "isWhiteSpace c =
     (c = 0x09 \<or> c = 0x0A \<or> c = 0x0B \<or> c = 0x0C \<or> c = 0x0D \<or> c = 0x20 \<or> c = 0xA0 \<or>
      c = 0x1680 \<or> (0x2000 \<le> c \<and> c \<le> 0x200A) \<or> c = 0x2028 \<or> c = 0x2029 \<or>
      c = 0x202F \<or> c = 0x205F \<or> c = 0x3000 \<or> c = 0xFEFF)"

text \<open>
  \<open>Canonicalize\<close> of a regular expression with the \<^verbatim>\<open>i\<close> flag and without \<^verbatim>\<open>u\<close>: the
  upper-case mapping, except that a code unit of 128 or more is never mapped below 128.
  Every pattern character of the source is ASCII, so only the ASCII part of the mapping
  can decide a comparison; the other code units stand for themselves here.
\<close>

definition canonicalize :: "jschar \<Rightarrow> jschar" where
  "canonicalize c = (if 0x61 \<le> c \<and> c \<le> 0x7A then c - 0x20 else c)"

definition trim :: "jsstring \<Rightarrow> jsstring" where
  "trim s = rev (dropWhile isWhiteSpace (rev (dropWhile isWhiteSpace s)))"

text \<open>\<open>s.slice(a, b)\<close>: a negative index counts from the end, and both are clamped.\<close>

definition slice :: "jsstring \<Rightarrow> int \<Rightarrow> int \<Rightarrow> jsstring" where
  "slice s a b =
     (let n = int (length s);
          from = (if a < 0 then max (n + a) 0 else min a n);
          upto = (if b < 0 then max (n + b) 0 else min b n)
      in take (nat (upto - from)) (drop (nat from) s))"

text \<open>\<open>xs.join(sep)\<close> on an array of strings.\<close>

fun join :: "jsstring \<Rightarrow> jsstring list \<Rightarrow> jsstring" where
  "join sep [] = []"
| "join sep [x] = x"
| "join sep (x # y # ys) = x @ sep @ join sep (y # ys)"

section \<open>Regular expressions\<close>

text \<open>
  The patterns of the source use characters and classes, sequence, alternation, the
  quantifiers \<^verbatim>\<open>*\<close>, \<^verbatim>\<open>+\<close>, \<^verbatim>\<open>?\<close> (greedy) and \<^verbatim>\<open>*?\<close> (lazy), and the assertions
  \<^verbatim>\<open>^\<close> and \<^verbatim>\<open>$\<close>, with and without \<^verbatim>\<open>/m\<close>. \<open>Star True\<close> is the greedy star, \<open>Star False\<close> the
  lazy one; \<open>Bos\<close>, \<open>Eos\<close> are \<^verbatim>\<open>^\<close>, \<^verbatim>\<open>$\<close> without \<^verbatim>\<open>/m\<close> and \<open>Bol\<close>, \<open>Eol\<close> with it.
\<close>

datatype regex =
    Chr "jschar \<Rightarrow> bool"
  | Seq regex regex
  | Alt regex regex
  | Star bool regex
  | Empty
  | Bos
  | Eos
  | Bol
  | Eol

type_synonym cont = "nat \<Rightarrow> nat option"

text \<open>
  The backtracking matcher of ECMAScript (22.2.2), in its own continuation-passing style:
  a matcher takes the continuation \<open>k\<close> for the rest of the pattern and the index \<open>i\<close>
  reached in the input, and yields the end index of the first match in priority order.
  \<open>repeatMatcher\<close> is \<open>RepeatMatcher\<close> with \<open>min = 0\<close>, \<open>max = \<infinity>\<close>: an iteration that consumes
  nothing is refused, so at most \<open>length s - i\<close> iterations happen after index \<open>i\<close>, which
  is the first argument.
\<close>

fun repeatMatcher :: "nat \<Rightarrow> (cont \<Rightarrow> cont) \<Rightarrow> bool \<Rightarrow> cont \<Rightarrow> cont" where
  "repeatMatcher 0 ma greedy k i = k i"
| "repeatMatcher (Suc n) ma greedy k i =
     (let d = (\<lambda>j. if j = i then None else repeatMatcher n ma greedy k j) in
      if greedy then (case ma d i of Some e \<Rightarrow> Some e | None \<Rightarrow> k i)
      else (case k i of Some e \<Rightarrow> Some e | None \<Rightarrow> ma d i))"

fun matcher :: "regex \<Rightarrow> jsstring \<Rightarrow> cont \<Rightarrow> cont" where
  "matcher (Chr P) s k i = (if i < length s \<and> P (s ! i) then k (Suc i) else None)"
| "matcher (Seq a b) s k i = matcher a s (\<lambda>j. matcher b s k j) i"
| "matcher (Alt a b) s k i =
     (case matcher a s k i of Some e \<Rightarrow> Some e | None \<Rightarrow> matcher b s k i)"
| "matcher (Star greedy a) s k i =
     repeatMatcher (length s - i) (\<lambda>d j. matcher a s d j) greedy k i"
| "matcher Empty s k i = k i"
| "matcher Bos s k i = (if i = 0 then k i else None)"
| "matcher Eos s k i = (if i = length s then k i else None)"
| "matcher Bol s k i = (if i = 0 \<or> isLineTerminator (s ! (i - 1)) then k i else None)"
| "matcher Eol s k i = (if i = length s \<or> isLineTerminator (s ! i) then k i else None)"

definition Plus :: "regex \<Rightarrow> regex" where
  "Plus a = Seq a (Star True a)"

definition Opt :: "regex \<Rightarrow> regex" where
  "Opt a = Alt a Empty"

fun Cat :: "regex list \<Rightarrow> regex" where
  "Cat [] = Empty"
| "Cat (r # rs) = Seq r (Cat rs)"

text \<open>A literal run of pattern characters, and the same under the \<^verbatim>\<open>i\<close> flag.\<close>

fun Lit :: "string \<Rightarrow> regex" where
  "Lit [] = Empty"
| "Lit (c # cs) = Seq (Chr (\<lambda>x. x = of_char c)) (Lit cs)"

fun LitI :: "string \<Rightarrow> regex" where
  "LitI [] = Empty"
| "LitI (c # cs) = Seq (Chr (\<lambda>x. canonicalize x = canonicalize (of_char c))) (LitI cs)"

text \<open>
  \<open>RegExpBuiltinExec\<close> without the sticky flag: try index \<open>i\<close>, then \<open>i + 1\<close>, up to and
  including the length of the input. The last argument is the input from \<open>i\<close> on. The
  result is the start and the end of the match.
\<close>

fun firstMatch :: "regex \<Rightarrow> jsstring \<Rightarrow> nat \<Rightarrow> jsstring \<Rightarrow> (nat \<times> nat) option" where
  "firstMatch re s i [] =
     (case matcher re s Some i of Some e \<Rightarrow> Some (i, e) | None \<Rightarrow> None)"
| "firstMatch re s i (c # cs) =
     (case matcher re s Some i of Some e \<Rightarrow> Some (i, e)
      | None \<Rightarrow> firstMatch re s (Suc i) cs)"

text \<open>\<open>s.search(re)\<close>: the index of the first match, or -1.\<close>

definition search :: "jsstring \<Rightarrow> regex \<Rightarrow> int" where
  "search s re = (case firstMatch re s 0 s of Some (i, e) \<Rightarrow> int i | None \<Rightarrow> - 1)"

text \<open>\<open>re.test(s)\<close> for a pattern without the \<^verbatim>\<open>g\<close> and \<^verbatim>\<open>y\<close> flags.\<close>

definition test :: "regex \<Rightarrow> jsstring \<Rightarrow> bool" where
  "test re s = (firstMatch re s 0 s \<noteq> None)"

lemma firstMatch_bounds:
  "firstMatch re s i cs = Some (p, e) \<Longrightarrow> i \<le> p \<and> p \<le> i + length cs"
proof (induction cs arbitrary: i)
  case Nil
  then show ?case by (simp split: option.splits)
next
  case (Cons c cs)
  show ?case
  proof (cases "matcher re s Some i")
    case None
    with Cons.prems have "firstMatch re s (Suc i) cs = Some (p, e)" by simp
    from Cons.IH [OF this] show ?thesis by simp
  next
    case (Some a)
    with Cons.prems show ?thesis by simp
  qed
qed

text \<open>
  \<open>s.replace(re, rep)\<close> for a pattern with the \<^verbatim>\<open>g\<close> flag and a replacement without
  \<^verbatim>\<open>$\<close>: matches are found from \<open>lastIndex\<close> on, each is replaced, and the search goes on
  from the end of the match (one further after an empty match).
\<close>

function replaceFrom :: "regex \<Rightarrow> jsstring \<Rightarrow> jsstring \<Rightarrow> nat \<Rightarrow> jsstring" where
  "replaceFrom re rep s lastIndex =
     (if length s < lastIndex then []
      else case firstMatch re s lastIndex (drop lastIndex s) of
        None \<Rightarrow> drop lastIndex s
      | Some (p, e) \<Rightarrow>
          take (p - lastIndex) (drop lastIndex s) @ rep @
          (if p < e then replaceFrom re rep s e
           else take 1 (drop p s) @ replaceFrom re rep s (Suc p)))"
  by pat_completeness auto
termination
proof (relation "measure (\<lambda>(re, rep, s, lastIndex). Suc (length s) - lastIndex)")
  show "wf (measure (\<lambda>(re, rep, s, lastIndex). Suc (length s) - lastIndex))"
    by simp
next
  fix re rep :: "jsstring" and rx s lastIndex x2 p e
  assume a: "\<not> length s < lastIndex"
    and b: "firstMatch rx s lastIndex (drop lastIndex s) = Some x2"
    and c: "(p, e) = x2" and d: "p < e"
  from b c have "firstMatch rx s lastIndex (drop lastIndex s) = Some (p, e)" by simp
  from firstMatch_bounds [OF this] have "lastIndex \<le> p" by simp
  with a d show "((rx, rep, s, e), rx, rep, s, lastIndex)
      \<in> measure (\<lambda>(re, rep, s, lastIndex). Suc (length s) - lastIndex)"
    by simp
next
  fix rep :: "jsstring" and rx s lastIndex x2 p e
  assume a: "\<not> length s < lastIndex"
    and b: "firstMatch rx s lastIndex (drop lastIndex s) = Some x2"
    and c: "(p, e) = x2"
  from b c have "firstMatch rx s lastIndex (drop lastIndex s) = Some (p, e)" by simp
  from firstMatch_bounds [OF this] have "lastIndex \<le> p" by simp
  with a show "((rx, rep, s, Suc p), rx, rep, s, lastIndex)
      \<in> measure (\<lambda>(re, rep, s, lastIndex). Suc (length s) - lastIndex)"
    by simp
qed

declare replaceFrom.simps [simp del]

definition replace :: "jsstring \<Rightarrow> regex \<Rightarrow> jsstring \<Rightarrow> jsstring" where
  "replace s re rep = replaceFrom re rep s 0"

section \<open>The address validator\<close>

text \<open>\<^verbatim>\<open>/^[^\s@]+@[^\s@]+\.[^\s@]+$/\<close>\<close>

definition notSpaceAt :: "jschar \<Rightarrow> bool" where
  "notSpaceAt c = (\<not> isWhiteSpace c \<and> c \<noteq> of_char CHR ''@'')"

definition emailRegex :: regex where
  "emailRegex =
     Cat [Bos, Plus (Chr notSpaceAt), Lit ''@'', Plus (Chr notSpaceAt), Lit ''.'',
          Plus (Chr notSpaceAt), Eos]"

definition validateEmail :: "jsstring \<Rightarrow> bool" where
  "validateEmail email = test emailRegex email"

section \<open>The runtime the module calls\<close>

text \<open>
  \<^verbatim>\<open>new Error(msg)\<close> of the source is \<open>Error msg\<close>; \<open>TypeError\<close> is the error the
  language itself raises (calling a method a value does not have, iterating a value that
  is not iterable).
\<close>

datatype error = Error jsstring | TypeError

record mailOptions =
  mo_from :: jsstring
  mo_to :: jsstring
  mo_cc :: "jsstring option"
  mo_bcc :: "jsstring option"
  mo_subject :: jsstring
  mo_text :: jsstring
  mo_html :: "jsstring option"
  mo_attachments :: "(jsstring \<times> jsstring) list"
  mo_inReplyTo :: "jsstring option"
  mo_references :: "jsstring option"

text \<open>
  What the module takes from Node and from nodemailer, none of it code of the repository:
  \<^item> \<open>toBase64 t\<close> is \<^verbatim>\<open>Buffer.from(t).toString('base64')\<close>;
  \<^item> \<open>fromBase64 d\<close> is \<^verbatim>\<open>Buffer.from(d, 'base64').toString('utf8')\<close>, which accepts
    every string;
  \<^item> \<open>random36\<close> is \<^verbatim>\<open>Math.random().toString(36)\<close> of the call;
  \<^item> \<open>existsSync\<close> is \<^verbatim>\<open>fs.existsSync\<close> and \<open>basename\<close> is \<^verbatim>\<open>path.basename\<close>;
  \<^item> \<open>sendMail o\<close> is \<^verbatim>\<open>(await transporter.sendMail(o)).message.toString()\<close> on the
    stream transport, or the error the promise is rejected with.
\<close>

record runtime =
  toBase64 :: "jsstring \<Rightarrow> jsstring"
  fromBase64 :: "jsstring \<Rightarrow> jsstring"
  random36 :: jsstring
  existsSync :: "jsstring \<Rightarrow> bool"
  basename :: "jsstring \<Rightarrow> jsstring"
  sendMail :: "mailOptions \<Rightarrow> error + jsstring"

section \<open>The outbound composer\<close>

text \<open>
  The request, with the fields of the tool's interface: \<open>to\<close>, \<open>subject\<close> and \<open>body\<close> are
  always there, the others may be absent (\<open>None\<close> is \<^verbatim>\<open>undefined\<close>).
\<close>

record emailArgs =
  to :: "jsstring list"
  cc :: "jsstring list option"
  bcc :: "jsstring list option"
  subject :: jsstring
  body :: jsstring
  htmlBody :: "jsstring option"
  mimeType :: "jsstring option"
  inReplyTo :: "jsstring option"
  attachments :: "jsstring list option"

text \<open>Truthiness of an optional string: \<^verbatim>\<open>undefined\<close> and \<^verbatim>\<open>''\<close> are falsy.\<close>

fun truthyStr :: "jsstring option \<Rightarrow> bool" where
  "truthyStr None = False"
| "truthyStr (Some s) = (s \<noteq> [])"

text \<open>\<^verbatim>\<open>/[^\x00-\x7F]/\<close>\<close>

definition nonAsciiRegex :: regex where
  "nonAsciiRegex = Chr (\<lambda>c. \<not> c \<le> 0x7F)"

definition encodeEmailHeader :: "runtime \<Rightarrow> jsstring \<Rightarrow> jsstring" where
  "encodeEmailHeader rt t =
     (if test nonAsciiRegex t then js ''=?UTF-8?B?'' @ toBase64 rt t @ js ''?='' else t)"

text \<open>
  The \<^verbatim>\<open>forEach\<close> over \<^verbatim>\<open>validatedArgs.to\<close> of both composers: the first address the
  validator refuses throws.
\<close>

fun validateRecipients :: "jsstring list \<Rightarrow> error + unit" where
  "validateRecipients [] = Inr ()"
| "validateRecipients (email # rest) =
     (if \<not> validateEmail email
      then Inl (Error (js ''Recipient email address is invalid: '' @ email))
      else validateRecipients rest)"

text \<open>The array \<^verbatim>\<open>emailParts\<close> as first built: the common headers, empty lines filtered out.\<close>

definition emailParts :: "runtime \<Rightarrow> emailArgs \<Rightarrow> jsstring list" where
  "emailParts rt validatedArgs =
     filter (\<lambda>l. l \<noteq> [])
       [js ''From: me'',
        js ''To: '' @ join (js '', '') (to validatedArgs),
        (case cc validatedArgs of Some xs \<Rightarrow> js ''Cc: '' @ join (js '', '') xs | None \<Rightarrow> []),
        (case bcc validatedArgs of Some xs \<Rightarrow> js ''Bcc: '' @ join (js '', '') xs | None \<Rightarrow> []),
        js ''Subject: '' @ encodeEmailHeader rt (subject validatedArgs),
        (if truthyStr (inReplyTo validatedArgs)
         then js ''In-Reply-To: '' @ the (inReplyTo validatedArgs) else []),
        (if truthyStr (inReplyTo validatedArgs)
         then js ''References: '' @ the (inReplyTo validatedArgs) else []),
        js ''MIME-Version: 1.0'']"

text \<open>
  \<open>mimeType0\<close> is \<^verbatim>\<open>mimeType\<close> as line 27 sets it and \<open>mimeType1\<close> as lines 31 to 33 leave it.
  The recipients are checked after the boundary is drawn and before \<^verbatim>\<open>emailParts\<close> is
  built.
\<close>

definition createEmailMessage :: "runtime \<Rightarrow> emailArgs \<Rightarrow> error + jsstring" where
  "createEmailMessage rt validatedArgs =
     (let mimeType0 = (if truthyStr (mimeType validatedArgs)
                       then the (mimeType validatedArgs) else js ''text/plain'');
          mimeType1 = (if truthyStr (htmlBody validatedArgs) \<and> mimeType0 \<noteq> js ''text/plain''
                       then js ''multipart/alternative'' else mimeType0);
          boundary = js ''----=_NextPart_'' @ drop 2 (random36 rt)
      in case validateRecipients (to validatedArgs) of
        Inl err \<Rightarrow> Inl err
      | Inr _ \<Rightarrow>
          (let htmlOrBody = (if truthyStr (htmlBody validatedArgs)
                             then the (htmlBody validatedArgs) else body validatedArgs)
           in Inr (join [CR, LF]
             (if mimeType1 = js ''multipart/alternative'' then
                emailParts rt validatedArgs @
                [js ''Content-Type: multipart/alternative; boundary='' @ [DQ] @ boundary @ [DQ],
                 [],
                 js ''--'' @ boundary,
                 js ''Content-Type: text/plain; charset=UTF-8'',
                 js ''Content-Transfer-Encoding: 7bit'',
                 [],
                 body validatedArgs,
                 [],
                 js ''--'' @ boundary,
                 js ''Content-Type: text/html; charset=UTF-8'',
                 js ''Content-Transfer-Encoding: 7bit'',
                 [],
                 htmlOrBody,
                 [],
                 js ''--'' @ boundary @ js ''--'']
              else if mimeType1 = js ''text/html'' then
                emailParts rt validatedArgs @
                [js ''Content-Type: text/html; charset=UTF-8'',
                 js ''Content-Transfer-Encoding: 7bit'',
                 [],
                 htmlOrBody]
              else
                emailParts rt validatedArgs @
                [js ''Content-Type: text/plain; charset=UTF-8'',
                 js ''Content-Transfer-Encoding: 7bit'',
                 [],
                 body validatedArgs]))))"

section \<open>The attachment-aware composer\<close>

text \<open>
  The loop over \<^verbatim>\<open>validatedArgs.attachments\<close>: the first path that does not exist throws;
  otherwise each path gives the pair of its file name and itself.
\<close>

fun prepareAttachments :: "runtime \<Rightarrow> jsstring list \<Rightarrow> error + (jsstring \<times> jsstring) list" where
  "prepareAttachments rt [] = Inr []"
| "prepareAttachments rt (filePath # rest) =
     (if \<not> existsSync rt filePath
      then Inl (Error (js ''File does not exist: '' @ filePath))
      else case prepareAttachments rt rest of
        Inl err \<Rightarrow> Inl err
      | Inr atts \<Rightarrow> Inr ((basename rt filePath, filePath) # atts))"

text \<open>
  \<^verbatim>\<open>for (const filePath of validatedArgs.attachments)\<close> has no guard: on an absent list the
  language raises a TypeError (\<^verbatim>\<open>undefined is not iterable\<close>).
\<close>

definition createEmailWithNodemailer :: "runtime \<Rightarrow> emailArgs \<Rightarrow> error + jsstring" where
  "createEmailWithNodemailer rt validatedArgs =
     (case validateRecipients (to validatedArgs) of
        Inl err \<Rightarrow> Inl err
      | Inr _ \<Rightarrow>
          (case attachments validatedArgs of
             None \<Rightarrow> Inl TypeError
           | Some paths \<Rightarrow>
               (case prepareAttachments rt paths of
                  Inl err \<Rightarrow> Inl err
                | Inr atts \<Rightarrow>
                    sendMail rt
                      \<lparr>mo_from = js ''me'',
                       mo_to = join (js '', '') (to validatedArgs),
                       mo_cc = map_option (join (js '', '')) (cc validatedArgs),
                       mo_bcc = map_option (join (js '', '')) (bcc validatedArgs),
                       mo_subject = subject validatedArgs,
                       mo_text = body validatedArgs,
                       mo_html = htmlBody validatedArgs,
                       mo_attachments = atts,
                       mo_inReplyTo = inReplyTo validatedArgs,
                       mo_references = inReplyTo validatedArgs\<rparr>)))"

section \<open>The inbound sanitizer\<close>

text \<open>
  \<^verbatim>\<open>makeEmailBodyLLMSafe(payload: any, ...)\<close> takes any value, and guards its reads
  (\<^verbatim>\<open>!part\<close>, \<^verbatim>\<open>part.body?.data\<close>, \<^verbatim>\<open>Array.isArray(part.parts)\<close>). The payload is therefore a
  JavaScript value as JSON delivers it; an object is the list of its own properties.
\<close>

datatype jsval =
    JUndefined
  | JNull
  | JBool bool
  | JNum int
  | JStr jsstring
  | JArr "jsval list"
  | JObj "(string \<times> jsval) list"

fun truthy :: "jsval \<Rightarrow> bool" where
  "truthy JUndefined = False"
| "truthy JNull = False"
| "truthy (JBool b) = b"
| "truthy (JNum n) = (n \<noteq> 0)"
| "truthy (JStr s) = (s \<noteq> [])"
| "truthy (JArr xs) = True"
| "truthy (JObj kvs) = True"

text \<open>
  \<open>v.k\<close> for one of the keys the source reads (\<open>mimeType\<close>, \<open>body\<close>, \<open>data\<close>, \<open>parts\<close>) on a
  value that is neither \<^verbatim>\<open>undefined\<close> nor \<^verbatim>\<open>null\<close>: only an object can have it. The source
  reads a property of such a value only.
\<close>

fun getProp :: "jsval \<Rightarrow> string \<Rightarrow> jsval" where
  "getProp (JObj kvs) k = (case map_of kvs k of Some v \<Rightarrow> v | None \<Rightarrow> JUndefined)"
| "getProp v k = JUndefined"

text \<open>\<open>v?.k\<close>\<close>

definition optProp :: "jsval \<Rightarrow> string \<Rightarrow> jsval" where
  "optProp v k = (if v = JUndefined \<or> v = JNull then JUndefined else getProp v k)"

record sanitizeOpts =
  maxChars :: "int option"

text \<open>
  \<open>decodeBody\<close>: \<^verbatim>\<open>data.replace\<close> is a method of strings only, so a truthy \<open>data\<close> that is not
  a string raises a TypeError.
\<close>

definition dashRegex :: regex where
  "dashRegex = Lit ''-''"

definition underscoreRegex :: regex where
  "underscoreRegex = Lit ''_''"

definition decodeBody :: "runtime \<Rightarrow> jsval \<Rightarrow> error + jsstring" where
  "decodeBody rt data =
     (if \<not> truthy data then Inr []
      else case data of
        JStr d \<Rightarrow>
          Inr (fromBase64 rt (replace (replace d dashRegex (js ''+'')) underscoreRegex (js ''/'')))
      | _ \<Rightarrow> Inl TypeError)"

lemma size_getProp: "size (getProp v k) \<le> size v"
proof (cases v)
  case (JObj kvs)
  have "map_of kvs k = Some w \<Longrightarrow> size w \<le> size_list (size_prod (\<lambda>_. 0) size) kvs" for w
    by (induction kvs) (auto split: if_splits)
  with JObj show ?thesis by (auto split: option.splits)
qed simp_all

text \<open>
  \<open>extractPart\<close> is \<^verbatim>\<open>extract\<close> of the source, and \<open>extractChildren\<close> its loop over
  \<^verbatim>\<open>part.parts\<close>, which appends each child's text and html to what was gathered so far.
\<close>

function extractPart :: "runtime \<Rightarrow> jsval \<Rightarrow> error + (jsstring \<times> jsstring)"
  and extractChildren ::
    "runtime \<Rightarrow> jsstring \<times> jsstring \<Rightarrow> jsval list \<Rightarrow> error + (jsstring \<times> jsstring)" where
  "extractPart rt part =
     (if \<not> truthy part then Inr ([], [])
      else
        let mime = getProp part ''mimeType'';
            data = optProp (getProp part ''body'') ''data'';
            own = (if mime = JStr (js ''text/plain'') \<and> truthy data
                   then (case decodeBody rt data of Inl err \<Rightarrow> Inl err | Inr t \<Rightarrow> Inr (t, []))
                   else if mime = JStr (js ''text/html'') \<and> truthy data
                   then (case decodeBody rt data of Inl err \<Rightarrow> Inl err | Inr h \<Rightarrow> Inr ([], h))
                   else Inr ([], []))
        in case own of
          Inl err \<Rightarrow> Inl err
        | Inr acc \<Rightarrow>
            (case getProp part ''parts'' of
               JArr ps \<Rightarrow> extractChildren rt acc ps
             | _ \<Rightarrow> Inr acc))"
| "extractChildren rt acc [] = Inr acc"
| "extractChildren rt acc (p # ps) =
     (case extractPart rt p of
        Inl err \<Rightarrow> Inl err
      | Inr child \<Rightarrow> extractChildren rt (fst acc @ fst child, snd acc @ snd child) ps)"
  by pat_completeness auto
termination
proof (relation "measure (\<lambda>x. case x of Inl (rt, part) \<Rightarrow> size part
                                      | Inr (rt, acc, ps) \<Rightarrow> size_list size ps)")
  show "wf (measure (\<lambda>x. case x of Inl (rt, part) \<Rightarrow> size part
                                  | Inr (rt, acc, ps) \<Rightarrow> size_list size ps))"
    by simp
next
  fix rt :: runtime and part ps and acc :: "jsstring \<times> jsstring"
  assume "getProp part ''parts'' = JArr ps"
  with size_getProp [of part "''parts''"] have "size_list size ps < size part" by simp
  then show "(Inr (rt, acc, ps), Inl (rt, part))
      \<in> measure (\<lambda>x. case x of Inl (rt, part) \<Rightarrow> size part
                              | Inr (rt, acc, ps) \<Rightarrow> size_list size ps)"
    by simp
qed simp_all

declare extractPart.simps [simp del]

text \<open>The patterns of \<open>htmlToText\<close>, in the order of their use.\<close>

definition styleRegex :: regex where
  "styleRegex = Cat [LitI ''<style'', Star False (Chr (\<lambda>c. isWhiteSpace c \<or> \<not> isWhiteSpace c)),
                     LitI ''</style>'']"

definition scriptRegex :: regex where
  "scriptRegex = Cat [LitI ''<script'', Star False (Chr (\<lambda>c. isWhiteSpace c \<or> \<not> isWhiteSpace c)),
                      LitI ''</script>'']"

definition closingTagRegex :: regex where
  "closingTagRegex =
     Cat [LitI ''</'',
          Alt (LitI ''p'') (Alt (LitI ''div'') (Alt (LitI ''li'')
            (Alt (Seq (LitI ''h'') (Chr (\<lambda>c. 0x31 \<le> c \<and> c \<le> 0x36)))
              (Alt (LitI ''br'') (LitI ''tr''))))),
          LitI ''>'']"

definition liRegex :: regex where
  "liRegex = LitI ''<li>''"

definition tagRegex :: regex where
  "tagRegex = Cat [Lit ''<'', Plus (Chr (\<lambda>c. c \<noteq> of_char CHR ''>'')), Lit ''>'']"

definition blankLinesRegex :: regex where
  "blankLinesRegex =
     Cat [Opt (Chr (\<lambda>c. c = CR)), Chr (\<lambda>c. c = LF), Star True (Chr isWhiteSpace),
          Opt (Chr (\<lambda>c. c = CR)), Chr (\<lambda>c. c = LF), Star True (Chr isWhiteSpace)]"

definition spacesRegex :: regex where
  "spacesRegex = Plus (Chr (\<lambda>c. c = 0x20 \<or> c = 0x09))"

definition htmlToText :: "jsstring \<Rightarrow> jsstring" where
  "htmlToText html =
     (if html = [] then []
      else
        let s1 = replace (replace html styleRegex []) scriptRegex [];
            s2 = replace (replace s1 closingTagRegex [LF]) liRegex (js ''- '');
            s3 = replace s2 tagRegex (js '' '');
            s4 = replace s3 blankLinesRegex [LF, LF];
            s5 = replace s4 spacesRegex (js '' '')
        in trim s5)"

text \<open>The markers of \<open>stripQuoted\<close> and of \<open>stripFooters\<close>, in the order of their lists.\<close>

definition dot :: regex where
  "dot = Chr (\<lambda>c. \<not> isLineTerminator c)"

definition quotedMarkers :: "regex list" where
  "quotedMarkers =
     [Cat [Bol, Lit ''On '', Star True dot, Lit '' wrote:'', Eol],
      Cat [Bol, Lit ''From: '', Star True dot, Eol],
      Cat [Bol, Lit ''-----Original Message-----'', Eol],
      Cat [Bol, Lit ''>'', Opt (Lit '' ''), Lit ''On '', Star True dot, Lit '' wrote:'', Eol]]"

definition footerMarkers :: "regex list" where
  "footerMarkers =
     [LitI ''This e-mail and any attachments are confidential'',
      LitI ''This email and any attachments are confidential'',
      LitI ''Please consider the environment before printing this email'',
      LitI ''To unsubscribe'',
      LitI ''Unsubscribe here'']"

text \<open>
  The loop of both functions: the first pattern of the list that matches anywhere cuts the
  text at its first match; \<open>None\<close> when the loop ends without a match.
\<close>

fun cutAtMarker :: "regex list \<Rightarrow> jsstring \<Rightarrow> jsstring option" where
  "cutAtMarker [] s = None"
| "cutAtMarker (re # res) s =
     (let idx = search s re in
      if idx \<noteq> - 1 then Some (trim (slice s 0 idx)) else cutAtMarker res s)"

definition stripQuoted :: "jsstring \<Rightarrow> jsstring" where
  "stripQuoted s = (case cutAtMarker quotedMarkers s of Some r \<Rightarrow> r | None \<Rightarrow> trim s)"

definition stripFooters :: "jsstring \<Rightarrow> jsstring" where
  "stripFooters s = (case cutAtMarker footerMarkers s of Some r \<Rightarrow> r | None \<Rightarrow> s)"

definition truncationMarker :: jsstring where
  "truncationMarker = [LF, LF] @ js ''[truncated for model]''"

definition truncate :: "int \<Rightarrow> jsstring \<Rightarrow> jsstring" where
  "truncate MAX_CHARS s =
     (if int (length s) \<le> MAX_CHARS then s else slice s 0 MAX_CHARS @ truncationMarker)"

definition maxCharsOf :: "sanitizeOpts option \<Rightarrow> int" where
  "maxCharsOf opts =
     (case opts of None \<Rightarrow> 6000
      | Some given \<Rightarrow> (case maxChars given of None \<Rightarrow> 6000 | Some n \<Rightarrow> n))"

definition makeEmailBodyLLMSafe ::
    "runtime \<Rightarrow> jsval \<Rightarrow> sanitizeOpts option \<Rightarrow> error + jsstring" where
  "makeEmailBodyLLMSafe rt payload opts =
     (let MAX_CHARS = maxCharsOf opts in
      case extractPart rt (if truthy payload then payload else JObj []) of
        Inl err \<Rightarrow> Inl err
      | Inr (text, html) \<Rightarrow>
          (let body0 = (if text \<noteq> [] \<and> trim text \<noteq> [] then trim text else []);
               body1 = (if body0 = [] \<and> html \<noteq> [] then htmlToText html else body0);
               body2 = stripQuoted body1;
               body3 = stripFooters body2
           in Inr (truncate MAX_CHARS body3)))"

section \<open>A reference runtime\<close>

text \<open>
  The theorems below hold for every runtime. Closed examples need one: this is the
  documented behaviour of Node's \<^verbatim>\<open>Buffer\<close> on the standard and the URL-safe base64
  alphabets and on UTF-8, with one file on disk and a renderer that only lists the
  recipients. Bytes and code points are natural numbers here.
\<close>

definition base64Alphabet :: string where
  "base64Alphabet = ''ABCDEFGHIJKLMNOPQRSTUVWXYZabcdefghijklmnopqrstuvwxyz0123456789+/''"

fun base64Encode :: "nat list \<Rightarrow> string" where
  "base64Encode [] = []"
| "base64Encode [a] =
     [base64Alphabet ! (a div 4), base64Alphabet ! ((a mod 4) * 16), CHR ''='', CHR ''='']"
| "base64Encode [a, b] =
     [base64Alphabet ! (a div 4), base64Alphabet ! ((a mod 4) * 16 + b div 16),
      base64Alphabet ! ((b mod 16) * 4), CHR ''='']"
| "base64Encode (a # b # c # rest) =
     [base64Alphabet ! (a div 4), base64Alphabet ! ((a mod 4) * 16 + b div 16),
      base64Alphabet ! ((b mod 16) * 4 + c div 64), base64Alphabet ! (c mod 64)]
     @ base64Encode rest"

text \<open>The value of a base64 digit, of either alphabet.\<close>

definition base64Digit :: "nat \<Rightarrow> nat option" where
  "base64Digit c =
     (if 65 \<le> c \<and> c \<le> 90 then Some (c - 65)
      else if 97 \<le> c \<and> c \<le> 122 then Some (c - 71)
      else if 48 \<le> c \<and> c \<le> 57 then Some (c + 4)
      else if c = 43 \<or> c = 45 then Some 62
      else if c = 47 \<or> c = 95 then Some 63
      else None)"

fun base64Groups :: "nat list \<Rightarrow> nat list" where
  "base64Groups (a # b # c # d # rest) =
     [a * 4 + b div 16, (b mod 16) * 16 + c div 4, (c mod 4) * 64 + d] @ base64Groups rest"
| "base64Groups [a, b, c] = [a * 4 + b div 16, (b mod 16) * 16 + c div 4]"
| "base64Groups [a, b] = [a * 4 + b div 16]"
| "base64Groups ds = []"

text \<open>
  Decoding is lenient: it ends at the first \<^verbatim>\<open>=\<close> and skips what is no digit. Of a code
  unit above 255 only the low byte is read (see \<open>nodeRuntime\<close>).
\<close>

definition base64Decode :: "nat list \<Rightarrow> nat list" where
  "base64Decode cs = base64Groups (List.map_filter base64Digit (takeWhile (\<lambda>c. c \<noteq> 61) cs))"

text \<open>UTF-16 code units to UTF-8 bytes; a lone surrogate becomes U+FFFD.\<close>

fun utf8Encode :: "nat list \<Rightarrow> nat list" where
  "utf8Encode [] = []"
| "utf8Encode (c # rest) =
     (if c < 0x80 then c # utf8Encode rest
      else if c < 0x800 then [0xC0 + c div 64, 0x80 + c mod 64] @ utf8Encode rest
      else if 0xD800 \<le> c \<and> c < 0xDC00 then
        (case rest of
           [] \<Rightarrow> [0xEF, 0xBF, 0xBD]
         | d # rest' \<Rightarrow>
             if 0xDC00 \<le> d \<and> d < 0xE000 then
               (let cp = 0x10000 + (c - 0xD800) * 1024 + (d - 0xDC00) in
                [0xF0 + cp div 262144, 0x80 + cp div 4096 mod 64,
                 0x80 + cp div 64 mod 64, 0x80 + cp mod 64] @ utf8Encode rest')
             else [0xEF, 0xBF, 0xBD] @ utf8Encode rest)
      else if 0xDC00 \<le> c \<and> c < 0xE000 then [0xEF, 0xBF, 0xBD] @ utf8Encode rest
      else [0xE0 + c div 4096, 0x80 + c div 64 mod 64, 0x80 + c mod 64] @ utf8Encode rest)"

definition continuation :: "nat \<Rightarrow> bool" where
  "continuation b = (0x80 \<le> b \<and> b \<le> 0xBF)"

definition codePoint :: "nat \<Rightarrow> nat list" where
  "codePoint cp =
     (if cp < 0x10000 then [cp]
      else [0xD800 + (cp - 0x10000) div 1024, 0xDC00 + (cp - 0x10000) mod 1024])"

text \<open>
  UTF-8 bytes to UTF-16 code units; every maximal ill-formed run becomes one U+FFFD, and
  decoding goes on at the byte that broke the run.
\<close>

fun utf8Decode :: "nat list \<Rightarrow> nat list" where
  "utf8Decode [] = []"
| "utf8Decode (b # r1) =
     (if b < 0x80 then b # utf8Decode r1
      else if 0xC2 \<le> b \<and> b \<le> 0xDF then
        (case r1 of
           [] \<Rightarrow> [0xFFFD]
         | c # r2 \<Rightarrow>
             if continuation c then ((b - 0xC0) * 64 + (c - 0x80)) # utf8Decode r2
             else 0xFFFD # utf8Decode r1)
      else if 0xE0 \<le> b \<and> b \<le> 0xEF then
        (case r1 of
           [] \<Rightarrow> [0xFFFD]
         | c # r2 \<Rightarrow>
             if (if b = 0xE0 then 0xA0 else 0x80) \<le> c \<and> c \<le> (if b = 0xED then 0x9F else 0xBF)
             then
               (case r2 of
                  [] \<Rightarrow> [0xFFFD]
                | d # r3 \<Rightarrow>
                    if continuation d
                    then ((b - 0xE0) * 4096 + (c - 0x80) * 64 + (d - 0x80)) # utf8Decode r3
                    else 0xFFFD # utf8Decode r2)
             else 0xFFFD # utf8Decode r1)
      else if 0xF0 \<le> b \<and> b \<le> 0xF4 then
        (case r1 of
           [] \<Rightarrow> [0xFFFD]
         | c # r2 \<Rightarrow>
             if (if b = 0xF0 then 0x90 else 0x80) \<le> c \<and> c \<le> (if b = 0xF4 then 0x8F else 0xBF)
             then
               (case r2 of
                  [] \<Rightarrow> [0xFFFD]
                | d # r3 \<Rightarrow>
                    if continuation d then
                      (case r3 of
                         [] \<Rightarrow> [0xFFFD]
                       | e # r4 \<Rightarrow>
                           if continuation e
                           then codePoint ((b - 0xF0) * 262144 + (c - 0x80) * 4096
                                           + (d - 0x80) * 64 + (e - 0x80)) @ utf8Decode r4
                           else 0xFFFD # utf8Decode r3)
                    else 0xFFFD # utf8Decode r2)
             else 0xFFFD # utf8Decode r1)
      else 0xFFFD # utf8Decode r1)"

definition nodeRuntime :: runtime where
  "nodeRuntime =
     \<lparr>toBase64 = (\<lambda>t. js (base64Encode (utf8Encode (map unat t)))),
      fromBase64 = (\<lambda>d. map of_nat (utf8Decode (base64Decode (map (\<lambda>c. unat c mod 256) d)))),
      random36 = js ''0.4fzyo82mvyr'',
      existsSync = (\<lambda>p. p = js ''/tmp/report.pdf''),
      basename = (\<lambda>p. rev (takeWhile (\<lambda>c. c \<noteq> of_char CHR ''/'')
                               (dropWhile (\<lambda>c. c = of_char CHR ''/'') (rev p)))),
      sendMail = (\<lambda>opts. Inr (js ''To: '' @ mo_to opts))\<rparr>"

section \<open>Notions for stating the properties\<close>

text \<open>A pattern matches at index \<open>i\<close> of \<open>s\<close> when the matcher started there finds an end.\<close>

definition matchesAt :: "regex \<Rightarrow> jsstring \<Rightarrow> nat \<Rightarrow> bool" where
  "matchesAt re s i = (i \<le> length s \<and> matcher re s Some i \<noteq> None)"

text \<open>
  The two stripping stages as the specification words them, for comparison with the
  source: the cut is at the earliest match of any pattern of the list.
\<close>

definition specEarliestIndex :: "jsstring \<Rightarrow> regex list \<Rightarrow> int" where
  "specEarliestIndex s markers =
     (case filter (\<lambda>idx. idx \<noteq> - 1) (map (search s) markers) of
        [] \<Rightarrow> - 1
      | idx # idxs \<Rightarrow> fold min idxs idx)"

definition specStripQuoted :: "jsstring \<Rightarrow> jsstring" where
  "specStripQuoted s =
     (let idx = specEarliestIndex s quotedMarkers in
      if idx \<noteq> - 1 then trim (slice s 0 idx) else trim s)"

definition specStripFooters :: "jsstring \<Rightarrow> jsstring" where
  "specStripFooters s =
     (let idx = specEarliestIndex s footerMarkers in
      if idx \<noteq> - 1 then trim (slice s 0 idx) else s)"

text \<open>Two texts in which a later pattern of the list matches before an earlier one.\<close>

definition quotedReply :: jsstring where
  "quotedReply = js ''a'' @ [LF] @ js ''From: x'' @ [LF] @ js ''On y wrote:'' @ [LF] @ js ''z''"

definition footedText :: jsstring where
  "footedText = js ''Hi. To unsubscribe click. This email and any attachments are confidential.''"

text \<open>The same two texts as the \<^verbatim>\<open>text/plain\<close> body of a payload, in base64url.\<close>

definition quotedReplyPayload :: jsval where
  "quotedReplyPayload =
     JObj [(''mimeType'', JStr (js ''text/plain'')),
           (''body'', JObj [(''data'', JStr (js ''YQpGcm9tOiB4Ck9uIHkgd3JvdGU6Cno''))])]"

definition footedTextPayload :: jsval where
  "footedTextPayload =
     JObj [(''mimeType'', JStr (js ''text/plain'')),
           (''body'', JObj [(''data'', JStr (js
              ''SGkuIFRvIHVuc3Vic2NyaWJlIGNsaWNrLiBUaGlzIGVtYWlsIGFuZCBhbnkgYXR0YWNobWVudHMgYXJlIGNvbmZpZGVudGlhbC4''))])]"

text \<open>
  The payloads on which the sanitizer raises nothing: in every part that is reached, a
  \<open>body.data\<close> that is decoded (the part is \<^verbatim>\<open>text/plain\<close> or \<^verbatim>\<open>text/html\<close> and \<open>data\<close> is
  truthy) is a string. Nothing is asked of the text of \<open>data\<close> or of the depth; \<^verbatim>\<open>null\<close>,
  \<^verbatim>\<open>{}\<close>, a part without a body and every tree the mail API delivers are among them.
\<close>

fun isString :: "jsval \<Rightarrow> bool" where
  "isString (JStr d) = True"
| "isString v = False"

function wfPart :: "jsval \<Rightarrow> bool" where
  "wfPart part =
     (\<not> truthy part \<or>
      ((getProp part ''mimeType'' \<noteq> JStr (js ''text/plain'') \<and>
        getProp part ''mimeType'' \<noteq> JStr (js ''text/html'') \<or>
        \<not> truthy (optProp (getProp part ''body'') ''data'') \<or>
        isString (optProp (getProp part ''body'') ''data'')) \<and>
       (case getProp part ''parts'' of JArr ps \<Rightarrow> list_all wfPart ps | _ \<Rightarrow> True)))"
  by pat_completeness auto
termination
proof (relation "measure size")
  show "wf (measure size)" by simp
next
  fix part :: jsval and ps p
  assume "getProp part ''parts'' = JArr ps" and "p \<in> set ps"
  then have "size p < size (getProp part ''parts'')"
    by (simp add: size_list_estimation' less_Suc_eq_le)
  with size_getProp [of part "''parts''"] show "(p, part) \<in> measure size" by simp
qed

declare wfPart.simps [simp del]

text \<open>A nested tree with a body that is not base64, a \<^verbatim>\<open>null\<close> part and an empty part.\<close>

definition nestedPayload :: jsval where
  "nestedPayload =
     JObj [(''mimeType'', JStr (js ''multipart/mixed'')),
           (''parts'', JArr
              [JObj [(''mimeType'', JStr (js ''text/plain'')),
                     (''body'', JObj [(''data'', JStr (js ''%%% not base64 %%%''))])],
               JNull,
               JObj [(''mimeType'', JStr (js ''multipart/alternative'')),
                     (''parts'', JArr [JObj [(''mimeType'', JStr (js ''text/html''))], JObj []])]])]"

text \<open>
  What a pattern denotes: \<open>lang r s i j\<close> when \<open>r\<close> can match \<open>s\<close> from index \<open>i\<close> to index \<open>j\<close>.
  The matcher finds a match exactly when one exists (\<open>matcher_complete\<close> below).
\<close>

primrec lang :: "regex \<Rightarrow> jsstring \<Rightarrow> nat \<Rightarrow> nat \<Rightarrow> bool" where
  "lang (Chr P) s = (\<lambda>i j. i < length s \<and> P (s ! i) \<and> j = Suc i)"
| "lang (Seq a b) s = (\<lambda>i j. \<exists>m. lang a s i m \<and> lang b s m j)"
| "lang (Alt a b) s = (\<lambda>i j. lang a s i j \<or> lang b s i j)"
| "lang (Star greedy a) s = rtranclp (lang a s)"
| "lang Empty s = (\<lambda>i j. j = i)"
| "lang Bos s = (\<lambda>i j. j = i \<and> i = 0)"
| "lang Eos s = (\<lambda>i j. j = i \<and> i = length s)"
| "lang Bol s = (\<lambda>i j. j = i \<and> (i = 0 \<or> isLineTerminator (s ! (i - 1))))"
| "lang Eol s = (\<lambda>i j. j = i \<and> (i = length s \<or> isLineTerminator (s ! i)))"

definition AT :: jschar where
  "AT = of_char CHR ''@''"

definition DOT :: jschar where
  "DOT = of_char CHR ''.''"

text \<open>
  The address shape as the specification words it: a local part, one \<^verbatim>\<open>@\<close>, a domain, both
  non-empty, no whitespace anywhere, no further \<^verbatim>\<open>@\<close>, and a \<^verbatim>\<open>.\<close> somewhere in the domain.
\<close>

definition specEmailShape :: "jsstring \<Rightarrow> bool" where
  "specEmailShape e =
     (let localPart = takeWhile (\<lambda>c. c \<noteq> AT) e;
          rest = dropWhile (\<lambda>c. c \<noteq> AT) e;
          domain = drop 1 rest
      in rest \<noteq> [] \<and> localPart \<noteq> [] \<and> domain \<noteq> [] \<and> \<not> list_ex isWhiteSpace e \<and>
         \<not> list_ex (\<lambda>c. c = AT) domain \<and> list_ex (\<lambda>c. c = DOT) domain)"

text \<open>
  The value of \<^verbatim>\<open>body\<close> when it reaches the bounding stage (line 259), from the text and the
  html that were extracted: the steps of lines 249 to 256.
\<close>

definition cleanedBody :: "jsstring \<Rightarrow> jsstring \<Rightarrow> jsstring" where
  "cleanedBody text html =
     (let body0 = (if text \<noteq> [] \<and> trim text \<noteq> [] then trim text else []);
          body1 = (if body0 = [] \<and> html \<noteq> [] then htmlToText html else body0)
      in stripFooters (stripQuoted body1))"

text \<open>
  A text of 7000 characters, and the reference runtime with a decoder that yields it for
  every body.
\<close>

definition longText :: jsstring where
  "longText = replicate 7000 (of_char CHR ''a'')"

definition longTextRuntime :: runtime where
  "longTextRuntime = nodeRuntime\<lparr>fromBase64 := (\<lambda>d. longText)\<rparr>"

section \<open>Properties of the sanitizer's last stage\<close>

lemma slice_prefix: "0 \<le> b \<Longrightarrow> slice s 0 b = take (nat b) s"
  by (simp add: slice_def Let_def min_def)

lemma length_truncationMarker: "length truncationMarker = 23"
  by (simp add: truncationMarker_def js_def)

lemma length_truncate: "0 \<le> m \<Longrightarrow> int (length (truncate m s)) \<le> m + 23"
  by (simp add: truncate_def slice_prefix length_truncationMarker)

text \<open>The pipeline after extraction, stage by stage.\<close>

lemma makeEmailBodyLLMSafe_stages:
  assumes "extractPart rt (if truthy payload then payload else JObj []) = Inr (t, h)"
    and "b0 = (if t \<noteq> [] \<and> trim t \<noteq> [] then trim t else [])"
    and "b1 = (if b0 = [] \<and> h \<noteq> [] then htmlToText h else b0)"
  shows "makeEmailBodyLLMSafe rt payload opts =
           Inr (truncate (maxCharsOf opts) (stripFooters (stripQuoted b1)))"
  using assms by (simp add: makeEmailBodyLLMSafe_def Let_def)

text \<open>
  The helper \<open>truncate\<close> on its own, for a budget that is a character count.
\<close>

lemma truncate_cuts_to_maxChars:
  "0 \<le> MAX_CHARS \<Longrightarrow>
     (MAX_CHARS < int (length s) \<longrightarrow>
        truncate MAX_CHARS s = take (nat MAX_CHARS) s @ truncationMarker \<and>
        length (take (nat MAX_CHARS) s) = nat MAX_CHARS) \<and>
     (int (length s) \<le> MAX_CHARS \<longrightarrow> truncate MAX_CHARS s = s)"
  by (auto simp add: truncate_def slice_prefix)

lemma truncate_7000_at_default:
  "truncate (maxCharsOf None) (replicate 7000 (of_char CHR ''a'')) =
     replicate 6000 (of_char CHR ''a'') @ [LF, LF] @ js ''[truncated for model]'' \<and>
   truncate (maxCharsOf None) (js ''short'') = js ''short''"
  using truncate_cuts_to_maxChars [of 6000 "replicate 7000 (of_char CHR ''a'')"]
    truncate_cuts_to_maxChars [of 6000 "js ''short''"]
  by (simp add: maxCharsOf_def js_def truncationMarker_def)

text \<open>
  A negative budget is no character count: \<open>slice\<close> then counts from the end of the text.
\<close>

lemma truncate_negative_budget: "truncate (- 1) (js ''ab'') = js ''a'' @ truncationMarker"
  by (simp add: truncate_def slice_def js_def)

text \<open>The payload \<^verbatim>\<open>{mimeType: 'text/plain', body: {data: 'aGVsbG8'}}\<close>, whose text is \<^verbatim>\<open>hello\<close>.\<close>

lemma hello_extracted:
  "extractPart nodeRuntime
     (JObj [(''mimeType'', JStr (js ''text/plain'')),
            (''body'', JObj [(''data'', JStr (js ''aGVsbG8''))])]) = Inr (js ''hello'', [])"
  by code_simp

lemma hello_trim: "trim (js ''hello'') = js ''hello''"
  by code_simp

lemma hello_stripQuoted: "stripQuoted (js ''hello'') = js ''hello''"
  by code_simp

lemma hello_stripFooters: "stripFooters (js ''hello'') = js ''hello''"
  by code_simp

lemma hello_sanitized:
  "makeEmailBodyLLMSafe nodeRuntime
     (JObj [(''mimeType'', JStr (js ''text/plain'')),
            (''body'', JObj [(''data'', JStr (js ''aGVsbG8''))])]) opts =
   Inr (truncate (maxCharsOf opts) (js ''hello''))"
proof -
  have ne: "js ''hello'' \<noteq> []" by (simp add: js_def)
  show ?thesis
    by (subst makeEmailBodyLLMSafe_stages [OF _ refl refl, where t = "js ''hello''" and h = "[]"])
       (simp_all add: hello_extracted hello_trim hello_stripQuoted hello_stripFooters ne)
qed

text \<open>
  C7, as stated, fails: with \<open>maxChars = 3\<close> the text \<^verbatim>\<open>hello\<close> comes back as \<^verbatim>\<open>hel\<close> and the
  marker, 26 characters in all.
\<close>

theorem sanitized_longer_than_maxChars:
  "makeEmailBodyLLMSafe nodeRuntime
     (JObj [(''mimeType'', JStr (js ''text/plain'')),
            (''body'', JObj [(''data'', JStr (js ''aGVsbG8''))])])
     (Some \<lparr>maxChars = Some 3\<rparr>) = Inr (js ''hel'' @ [LF, LF] @ js ''[truncated for model]'') \<and>
   (3 :: nat) < length (js ''hel'' @ [LF, LF] @ js ''[truncated for model]'')"
  by (simp only: hello_sanitized)
     (simp add: maxCharsOf_def truncate_def slice_def truncationMarker_def js_def)

text \<open>
  C7, amended. With a character budget \<open>maxChars \<ge> 0\<close> (or none given, which is 6000),
  whatever \<open>makeEmailBodyLLMSafe\<close> returns is at most \<open>maxChars\<close> plus the 23 characters of
  the truncation marker long.
\<close>

theorem sanitized_length_bound:
  "0 \<le> maxCharsOf opts \<Longrightarrow> makeEmailBodyLLMSafe rt payload opts = Inr r \<Longrightarrow>
     int (length r) \<le> maxCharsOf opts + int (length truncationMarker) \<and>
     length truncationMarker = 23"
  by (auto simp add: makeEmailBodyLLMSafe_def Let_def length_truncationMarker
      split: sum.splits intro: length_truncate)

theorem sanitized_length_bound_witness:
  "int (length (js ''hel'' @ [LF, LF] @ js ''[truncated for model]'')) \<le> 3 + 23"
proof -
  have run: "makeEmailBodyLLMSafe nodeRuntime
     (JObj [(''mimeType'', JStr (js ''text/plain'')),
            (''body'', JObj [(''data'', JStr (js ''aGVsbG8''))])])
     (Some \<lparr>maxChars = Some 3\<rparr>) = Inr (js ''hel'' @ [LF, LF] @ js ''[truncated for model]'')"
    by (simp only: hello_sanitized)
       (simp add: maxCharsOf_def truncate_def slice_def truncationMarker_def js_def)
  have "0 \<le> maxCharsOf (Some \<lparr>maxChars = Some 3\<rparr>)"
    by (simp add: maxCharsOf_def)
  from sanitized_length_bound [OF this run] show ?thesis
    by (simp add: maxCharsOf_def length_truncationMarker)
qed

section \<open>Properties of the composers\<close>

lemma validateRecipients_ok:
  "list_all validateEmail tos \<Longrightarrow> validateRecipients tos = Inr ()"
  by (induction tos) simp_all

lemma validateRecipients_first_invalid:
  "\<not> list_all validateEmail tos \<Longrightarrow>
     validateRecipients tos =
       Inl (Error (js ''Recipient email address is invalid: '' @ hd (dropWhile validateEmail tos)))"
  by (induction tos) simp_all

lemma first_invalid_member:
  "\<not> list_all P xs \<Longrightarrow> hd (dropWhile P xs) \<in> set xs \<and> \<not> P (hd (dropWhile P xs))"
  by (induction xs) auto

lemma prepareAttachments_ok:
  "list_all (existsSync rt) paths \<Longrightarrow>
     prepareAttachments rt paths = Inr (map (\<lambda>p. (basename rt p, p)) paths)"
  by (induction paths) simp_all

lemma prepareAttachments_first_missing:
  "\<not> list_all (existsSync rt) paths \<Longrightarrow>
     prepareAttachments rt paths =
       Inl (Error (js ''File does not exist: '' @ hd (dropWhile (existsSync rt) paths)))"
  by (induction paths) simp_all

lemma prepareAttachments_error:
  "prepareAttachments rt paths = Inl err \<Longrightarrow> \<exists>p. err = Error (js ''File does not exist: '' @ p)"
  by (induction paths) (auto split: if_splits sum.splits)

lemma valid_a_b_co: "validateEmail (js ''a@b.co'')"
  by code_simp

lemma invalid_bad_address: "\<not> validateEmail (js ''bad-address'')"
  by code_simp

lemma encodeEmailHeader_ascii_s: "encodeEmailHeader rt (js ''s'') = js ''s''"
  by (simp add: encodeEmailHeader_def test_def nonAsciiRegex_def js_def)

lemma js_not_Nil: "js (c # cs) \<noteq> []"
  by (simp add: js_def)

lemma js_append_not_Nil: "js (c # cs) @ s \<noteq> []"
  by (simp add: js_def)

lemma join_Cons: "join sep (x # xs) = (if xs = [] then x else x @ sep @ join sep xs)"
  by (cases xs) simp_all

text \<open>
  C4. When some address of \<open>to\<close> fails the validator, \<open>createEmailMessage\<close> returns no
  message: it throws the error whose text names the first such address of the list.
\<close>

theorem createEmailMessage_rejects_first_invalid:
  "\<not> list_all validateEmail (to validatedArgs) \<Longrightarrow>
     createEmailMessage rt validatedArgs =
       Inl (Error (js ''Recipient email address is invalid: ''
                   @ hd (dropWhile validateEmail (to validatedArgs)))) \<and>
     hd (dropWhile validateEmail (to validatedArgs)) \<in> set (to validatedArgs) \<and>
     \<not> validateEmail (hd (dropWhile validateEmail (to validatedArgs)))"
  by (simp add: createEmailMessage_def Let_def validateRecipients_first_invalid
      first_invalid_member)

theorem createEmailMessage_rejects_first_invalid_witness:
  "createEmailMessage nodeRuntime
     \<lparr>to = [js ''a@b.co'', js ''bad-address'', js ''worse''], cc = None, bcc = None,
      subject = js ''s'', body = js ''hi'', htmlBody = None, mimeType = None,
      inReplyTo = None, attachments = None\<rparr> =
   Inl (Error (js ''Recipient email address is invalid: '' @ js ''bad-address''))"
  using createEmailMessage_rejects_first_invalid [of
     "\<lparr>to = [js ''a@b.co'', js ''bad-address'', js ''worse''], cc = None, bcc = None,
      subject = js ''s'', body = js ''hi'', htmlBody = None, mimeType = None,
      inReplyTo = None, attachments = None\<rparr>" nodeRuntime]
  by (simp add: valid_a_b_co invalid_bad_address)

text \<open>
  C5, as stated, fails: the attachment list is read without a guard, so a request whose
  addresses are all valid and whose attachment list is absent ends in a TypeError, which is
  neither of the two kinds.
\<close>

theorem createEmailWithNodemailer_absent_attachments:
  "createEmailWithNodemailer nodeRuntime
     \<lparr>to = [js ''a@b.co''], cc = None, bcc = None, subject = js ''s'', body = js ''hi'',
      htmlBody = None, mimeType = None, inReplyTo = None, attachments = None\<rparr> =
   Inl TypeError"
  by (simp add: createEmailWithNodemailer_def valid_a_b_co)

text \<open>
  C5, amended. With the attachment list present, \<open>createEmailWithNodemailer\<close> throws of its
  own only the invalid-recipient error, naming the first address the validator refuses, and
  the missing-file error, naming the first path that does not exist; when every address is
  valid and every path exists it throws nothing itself and yields what the renderer gives
  for the mail options built from the request.
\<close>

theorem createEmailWithNodemailer_errors:
  "attachments validatedArgs = Some paths \<Longrightarrow>
     (\<not> list_all validateEmail (to validatedArgs) \<longrightarrow>
        createEmailWithNodemailer rt validatedArgs =
          Inl (Error (js ''Recipient email address is invalid: ''
                      @ hd (dropWhile validateEmail (to validatedArgs))))) \<and>
     (list_all validateEmail (to validatedArgs) \<and> \<not> list_all (existsSync rt) paths \<longrightarrow>
        createEmailWithNodemailer rt validatedArgs =
          Inl (Error (js ''File does not exist: '' @ hd (dropWhile (existsSync rt) paths)))) \<and>
     (list_all validateEmail (to validatedArgs) \<and> list_all (existsSync rt) paths \<longrightarrow>
        createEmailWithNodemailer rt validatedArgs =
          sendMail rt
            \<lparr>mo_from = js ''me'',
             mo_to = join (js '', '') (to validatedArgs),
             mo_cc = map_option (join (js '', '')) (cc validatedArgs),
             mo_bcc = map_option (join (js '', '')) (bcc validatedArgs),
             mo_subject = subject validatedArgs,
             mo_text = body validatedArgs,
             mo_html = htmlBody validatedArgs,
             mo_attachments = map (\<lambda>p. (basename rt p, p)) paths,
             mo_inReplyTo = inReplyTo validatedArgs,
             mo_references = inReplyTo validatedArgs\<rparr>)"
  by (simp add: createEmailWithNodemailer_def validateRecipients_ok
      validateRecipients_first_invalid prepareAttachments_ok prepareAttachments_first_missing)

theorem createEmailWithNodemailer_errors_witness:
  "createEmailWithNodemailer nodeRuntime
     \<lparr>to = [js ''a@b.co''], cc = None, bcc = None, subject = js ''s'', body = js ''hi'',
      htmlBody = None, mimeType = None, inReplyTo = None,
      attachments = Some [js ''/tmp/report.pdf'']\<rparr> = Inr (js ''To: '' @ js ''a@b.co'') \<and>
   createEmailWithNodemailer nodeRuntime
     \<lparr>to = [js ''a@b.co''], cc = None, bcc = None, subject = js ''s'', body = js ''hi'',
      htmlBody = None, mimeType = None, inReplyTo = None,
      attachments = Some [js ''/tmp/report.pdf'', js ''/tmp/none'']\<rparr> =
     Inl (Error (js ''File does not exist: '' @ js ''/tmp/none''))"
proof -
  have differ: "js ''/tmp/none'' \<noteq> js ''/tmp/report.pdf''"
    by (simp add: js_def)
  show ?thesis
    using createEmailWithNodemailer_errors [of
       "\<lparr>to = [js ''a@b.co''], cc = None, bcc = None, subject = js ''s'', body = js ''hi'',
        htmlBody = None, mimeType = None, inReplyTo = None,
        attachments = Some [js ''/tmp/report.pdf'']\<rparr>" "[js ''/tmp/report.pdf'']" nodeRuntime]
      createEmailWithNodemailer_errors [of
       "\<lparr>to = [js ''a@b.co''], cc = None, bcc = None, subject = js ''s'', body = js ''hi'',
        htmlBody = None, mimeType = None, inReplyTo = None,
        attachments = Some [js ''/tmp/report.pdf'', js ''/tmp/none'']\<rparr>"
       "[js ''/tmp/report.pdf'', js ''/tmp/none'']" nodeRuntime]
    by (simp add: valid_a_b_co nodeRuntime_def differ)
qed


text \<open>
  C10. Only \<open>to\<close> is validated. When its addresses are all valid, whatever \<open>cc\<close> and \<open>bcc\<close>
  hold: \<open>createEmailMessage\<close> returns a message whose \<^verbatim>\<open>Cc:\<close> and \<^verbatim>\<open>Bcc:\<close> lines are the
  entries joined by \<^verbatim>\<open>', '\<close> as they are; and \<open>createEmailWithNodemailer\<close> goes on to the
  attachments and hands the renderer the same joined strings, so an invalid-recipient error
  can only be one the renderer itself returns.
\<close>

theorem cc_bcc_never_validated:
  "list_all validateEmail (to validatedArgs) \<Longrightarrow>
     (\<exists>rest. createEmailMessage rt validatedArgs =
        Inr (js ''From: me'' @ [CR, LF]
             @ js ''To: '' @ join (js '', '') (to validatedArgs) @ [CR, LF]
             @ (case cc validatedArgs of
                  Some xs \<Rightarrow> js ''Cc: '' @ join (js '', '') xs @ [CR, LF] | None \<Rightarrow> [])
             @ (case bcc validatedArgs of
                  Some xs \<Rightarrow> js ''Bcc: '' @ join (js '', '') xs @ [CR, LF] | None \<Rightarrow> [])
             @ js ''Subject: '' @ rest)) \<and>
     createEmailWithNodemailer rt validatedArgs =
       (case attachments validatedArgs of
          None \<Rightarrow> Inl TypeError
        | Some paths \<Rightarrow>
            (case prepareAttachments rt paths of
               Inl err \<Rightarrow> Inl err
             | Inr atts \<Rightarrow>
                 sendMail rt
                   \<lparr>mo_from = js ''me'',
                    mo_to = join (js '', '') (to validatedArgs),
                    mo_cc = map_option (join (js '', '')) (cc validatedArgs),
                    mo_bcc = map_option (join (js '', '')) (bcc validatedArgs),
                    mo_subject = subject validatedArgs,
                    mo_text = body validatedArgs,
                    mo_html = htmlBody validatedArgs,
                    mo_attachments = atts,
                    mo_inReplyTo = inReplyTo validatedArgs,
                    mo_references = inReplyTo validatedArgs\<rparr>)) \<and>
     (\<forall>bad. createEmailWithNodemailer rt validatedArgs
              = Inl (Error (js ''Recipient email address is invalid: '' @ bad)) \<longrightarrow>
            (\<exists>opts. sendMail rt opts
              = Inl (Error (js ''Recipient email address is invalid: '' @ bad))))"
proof -
  assume ok: "list_all validateEmail (to validatedArgs)"
  have parts: "\<exists>hs. emailParts rt validatedArgs =
      [js ''From: me'', js ''To: '' @ join (js '', '') (to validatedArgs)]
      @ (case cc validatedArgs of Some xs \<Rightarrow> [js ''Cc: '' @ join (js '', '') xs] | None \<Rightarrow> [])
      @ (case bcc validatedArgs of Some xs \<Rightarrow> [js ''Bcc: '' @ join (js '', '') xs] | None \<Rightarrow> [])
      @ (js ''Subject: '' @ encodeEmailHeader rt (subject validatedArgs)) # hs @ [js ''MIME-Version: 1.0'']"
    by (simp add: emailParts_def js_not_Nil js_append_not_Nil split: option.splits)
  then obtain hs where hs: "emailParts rt validatedArgs =
      [js ''From: me'', js ''To: '' @ join (js '', '') (to validatedArgs)]
      @ (case cc validatedArgs of Some xs \<Rightarrow> [js ''Cc: '' @ join (js '', '') xs] | None \<Rightarrow> [])
      @ (case bcc validatedArgs of Some xs \<Rightarrow> [js ''Bcc: '' @ join (js '', '') xs] | None \<Rightarrow> [])
      @ (js ''Subject: '' @ encodeEmailHeader rt (subject validatedArgs)) # hs @ [js ''MIME-Version: 1.0'']"
    by blast
  have shape: "\<exists>rest. join [CR, LF] (emailParts rt validatedArgs @ more) =
      js ''From: me'' @ [CR, LF]
      @ js ''To: '' @ join (js '', '') (to validatedArgs) @ [CR, LF]
      @ (case cc validatedArgs of
           Some xs \<Rightarrow> js ''Cc: '' @ join (js '', '') xs @ [CR, LF] | None \<Rightarrow> [])
      @ (case bcc validatedArgs of
           Some xs \<Rightarrow> js ''Bcc: '' @ join (js '', '') xs @ [CR, LF] | None \<Rightarrow> [])
      @ js ''Subject: '' @ rest" for more
    unfolding hs by (simp add: join_Cons split: option.splits)
  from ok have valid: "validateRecipients (to validatedArgs) = Inr ()"
    by (rule validateRecipients_ok)
  have message: "\<exists>rest. createEmailMessage rt validatedArgs =
        Inr (js ''From: me'' @ [CR, LF]
             @ js ''To: '' @ join (js '', '') (to validatedArgs) @ [CR, LF]
             @ (case cc validatedArgs of
                  Some xs \<Rightarrow> js ''Cc: '' @ join (js '', '') xs @ [CR, LF] | None \<Rightarrow> [])
             @ (case bcc validatedArgs of
                  Some xs \<Rightarrow> js ''Bcc: '' @ join (js '', '') xs @ [CR, LF] | None \<Rightarrow> [])
             @ js ''Subject: '' @ rest)"
    using valid shape by (simp add: createEmailMessage_def Let_def)
  have rendered: "createEmailWithNodemailer rt validatedArgs =
       (case attachments validatedArgs of
          None \<Rightarrow> Inl TypeError
        | Some paths \<Rightarrow>
            (case prepareAttachments rt paths of
               Inl err \<Rightarrow> Inl err
             | Inr atts \<Rightarrow>
                 sendMail rt
                   \<lparr>mo_from = js ''me'',
                    mo_to = join (js '', '') (to validatedArgs),
                    mo_cc = map_option (join (js '', '')) (cc validatedArgs),
                    mo_bcc = map_option (join (js '', '')) (bcc validatedArgs),
                    mo_subject = subject validatedArgs,
                    mo_text = body validatedArgs,
                    mo_html = htmlBody validatedArgs,
                    mo_attachments = atts,
                    mo_inReplyTo = inReplyTo validatedArgs,
                    mo_references = inReplyTo validatedArgs\<rparr>))"
    using valid by (simp add: createEmailWithNodemailer_def)
  have differ: "js ''File does not exist: '' @ p \<noteq> js ''Recipient email address is invalid: '' @ bad"
    for p bad
    by (simp add: js_def)
  have own: "\<exists>opts. sendMail rt opts = Inl (Error (js ''Recipient email address is invalid: '' @ bad))"
    if "createEmailWithNodemailer rt validatedArgs
          = Inl (Error (js ''Recipient email address is invalid: '' @ bad))" for bad
  proof (cases "attachments validatedArgs")
    case None
    with that rendered show ?thesis by simp
  next
    case (Some paths)
    show ?thesis
    proof (cases "prepareAttachments rt paths")
      case (Inl err)
      from prepareAttachments_error [OF Inl] obtain p
        where "err = Error (js ''File does not exist: '' @ p)" ..
      with that rendered Some Inl differ [of p bad] show ?thesis by simp
    next
      case (Inr atts)
      with that rendered Some show ?thesis by auto
    qed
  qed
  from message rendered own show ?thesis by blast
qed

theorem cc_bcc_never_validated_witness:
  "(\<exists>rest. createEmailMessage nodeRuntime
     \<lparr>to = [js ''a@b.co''], cc = Some [js ''not an address'', js ''@@''], bcc = Some [js ''x y''],
      subject = js ''s'', body = js ''hi'', htmlBody = None, mimeType = None,
      inReplyTo = None, attachments = Some [js ''/tmp/report.pdf'']\<rparr> =
     Inr (js ''From: me'' @ [CR, LF] @ js ''To: a@b.co'' @ [CR, LF]
          @ js ''Cc: not an address, @@'' @ [CR, LF] @ js ''Bcc: x y'' @ [CR, LF]
          @ js ''Subject: '' @ rest)) \<and>
   createEmailWithNodemailer nodeRuntime
     \<lparr>to = [js ''a@b.co''], cc = Some [js ''not an address'', js ''@@''], bcc = Some [js ''x y''],
      subject = js ''s'', body = js ''hi'', htmlBody = None, mimeType = None,
      inReplyTo = None, attachments = Some [js ''/tmp/report.pdf'']\<rparr> =
     sendMail nodeRuntime
       \<lparr>mo_from = js ''me'', mo_to = js ''a@b.co'',
        mo_cc = Some (js ''not an address, @@''), mo_bcc = Some (js ''x y''),
        mo_subject = js ''s'', mo_text = js ''hi'', mo_html = None,
        mo_attachments = [(js ''report.pdf'', js ''/tmp/report.pdf'')],
        mo_inReplyTo = None, mo_references = None\<rparr> \<and>
   createEmailWithNodemailer nodeRuntime
     \<lparr>to = [js ''a@b.co''], cc = Some [js ''not an address'', js ''@@''], bcc = Some [js ''x y''],
      subject = js ''s'', body = js ''hi'', htmlBody = None, mimeType = None,
      inReplyTo = None, attachments = Some [js ''/tmp/report.pdf'']\<rparr> = Inr (js ''To: a@b.co'')"
proof -
  have "list_all validateEmail (to
     \<lparr>to = [js ''a@b.co''], cc = Some [js ''not an address'', js ''@@''], bcc = Some [js ''x y''],
      subject = js ''s'', body = js ''hi'', htmlBody = None, mimeType = None,
      inReplyTo = None, attachments = Some [js ''/tmp/report.pdf'']\<rparr>)"
    by (simp add: valid_a_b_co)
  from cc_bcc_never_validated [OF this, of nodeRuntime] show ?thesis
    by (simp add: nodeRuntime_def js_def)
qed


text \<open>
  C3 at the request \<open>body = hi\<close>, \<open>htmlBody = <b>hi</b>\<close> with no \<open>mimeType\<close>: the type
  defaults to \<^verbatim>\<open>text/plain\<close> before \<open>htmlBody\<close> is looked at, so the message is the single
  plain part and the HTML body is dropped.
\<close>

theorem createEmailMessage_htmlBody_without_mimeType:
  "createEmailMessage nodeRuntime
     \<lparr>to = [js ''a@b.co''], cc = None, bcc = None, subject = js ''s'', body = js ''hi'',
      htmlBody = Some (js ''<b>hi</b>''), mimeType = None, inReplyTo = None,
      attachments = None\<rparr> =
   Inr (join [CR, LF]
     [js ''From: me'',
      js ''To: a@b.co'',
      js ''Subject: s'',
      js ''MIME-Version: 1.0'',
      js ''Content-Type: text/plain; charset=UTF-8'',
      js ''Content-Transfer-Encoding: 7bit'',
      [],
      js ''hi''])"
proof -
  have plain: "js ''text/plain'' \<noteq> js ''multipart/alternative''"
    "js ''text/plain'' \<noteq> js ''text/html''"
    by (simp_all add: js_def)
  show ?thesis
    unfolding createEmailMessage_def emailParts_def Let_def
    by (simp add: valid_a_b_co plain encodeEmailHeader_ascii_s js_not_Nil)
       (simp add: js_def)
qed


text \<open>
  With a type that is given and is not \<^verbatim>\<open>text/plain\<close>, and a non-empty HTML body, the
  message is \<^verbatim>\<open>multipart/alternative\<close>: the plain part, then the HTML part.
\<close>

lemma createEmailMessage_multipart:
  assumes "list_all validateEmail (to validatedArgs)"
    and "mimeType validatedArgs = Some mt" and "mt \<noteq> []" and "mt \<noteq> js ''text/plain''"
    and "htmlBody validatedArgs = Some html" and "html \<noteq> []"
  shows "createEmailMessage rt validatedArgs =
     Inr (join [CR, LF]
       (emailParts rt validatedArgs @
        [js ''Content-Type: multipart/alternative; boundary='' @ [DQ]
           @ js ''----=_NextPart_'' @ drop 2 (random36 rt) @ [DQ],
         [],
         js ''--'' @ js ''----=_NextPart_'' @ drop 2 (random36 rt),
         js ''Content-Type: text/plain; charset=UTF-8'',
         js ''Content-Transfer-Encoding: 7bit'',
         [],
         body validatedArgs,
         [],
         js ''--'' @ js ''----=_NextPart_'' @ drop 2 (random36 rt),
         js ''Content-Type: text/html; charset=UTF-8'',
         js ''Content-Transfer-Encoding: 7bit'',
         [],
         html,
         [],
         js ''--'' @ js ''----=_NextPart_'' @ drop 2 (random36 rt) @ js ''--'']))"
  using assms by (simp add: createEmailMessage_def Let_def validateRecipients_ok del: join.simps)


section \<open>Properties of the HTML fallback\<close>

lemma length_js: "length (js cs) = length cs"
  by (simp add: js_def)

lemma paragraphs_htmlToText:
  "htmlToText (js ''<p>Hello</p><p>World</p>'') = js ''Hello'' @ [LF] @ js '' World''"
  by code_simp

lemma paragraphs_stripQuoted:
  "stripQuoted (js ''Hello'' @ [LF] @ js '' World'') = js ''Hello'' @ [LF] @ js '' World''"
  by code_simp

lemma paragraphs_stripFooters:
  "stripFooters (js ''Hello'' @ [LF] @ js '' World'') = js ''Hello'' @ [LF] @ js '' World''"
  by code_simp

lemma extractPart_html_leaf:
  "d \<noteq> [] \<Longrightarrow>
   extractPart rt (JObj [(''mimeType'', JStr (js ''text/html'')), (''body'', JObj [(''data'', JStr d)])])
     = Inr ([], fromBase64 rt (replace (replace d dashRegex (js ''+'')) underscoreRegex (js ''/'')))"
proof -
  have "js ''text/html'' \<noteq> js ''text/plain''" by (simp add: js_def)
  then show "d \<noteq> [] \<Longrightarrow> ?thesis"
    by (simp add: extractPart.simps optProp_def decodeBody_def Let_def)
qed

lemma paragraphs_decoded:
  "fromBase64 nodeRuntime
     (replace (replace (js ''PHA-SGVsbG88L3A-PHA-V29ybGQ8L3A-'') dashRegex (js ''+'')) underscoreRegex (js ''/''))
   = js ''<p>Hello</p><p>World</p>''"
  by code_simp

text \<open>
  C8, as stated, fails: for the HTML part \<^verbatim>\<open><p>Hello</p><p>World</p>\<close> (in base64url,
  \<^verbatim>\<open>PHA-SGVsbG88L3A-PHA-V29ybGQ8L3A-\<close>) the result is not \<^verbatim>\<open>Hello\n\nWorld\<close>.
\<close>

theorem html_paragraphs_not_blank_line:
  "makeEmailBodyLLMSafe nodeRuntime
     (JObj [(''mimeType'', JStr (js ''text/html'')),
            (''body'', JObj [(''data'', JStr (js ''PHA-SGVsbG88L3A-PHA-V29ybGQ8L3A-''))])]) None
     \<noteq> Inr (js ''Hello'' @ [LF, LF] @ js ''World'')"
proof -
  have ne: "js ''<p>Hello</p><p>World</p>'' \<noteq> []" by (simp add: js_def)
  have d: "js ''PHA-SGVsbG88L3A-PHA-V29ybGQ8L3A-'' \<noteq> []" by (simp add: js_def)
  have "makeEmailBodyLLMSafe nodeRuntime
     (JObj [(''mimeType'', JStr (js ''text/html'')),
            (''body'', JObj [(''data'', JStr (js ''PHA-SGVsbG88L3A-PHA-V29ybGQ8L3A-''))])]) None
     = Inr (truncate (maxCharsOf None)
         (stripFooters (stripQuoted (htmlToText (js ''<p>Hello</p><p>World</p>'')))))"
    using makeEmailBodyLLMSafe_stages [OF _ refl refl, where t = "[]"
        and h = "js ''<p>Hello</p><p>World</p>''" and rt = nodeRuntime
        and payload = "JObj [(''mimeType'', JStr (js ''text/html'')),
            (''body'', JObj [(''data'', JStr (js ''PHA-SGVsbG88L3A-PHA-V29ybGQ8L3A-''))])]"]
    by (simp add: extractPart_html_leaf [OF d] paragraphs_decoded ne)
  then have "makeEmailBodyLLMSafe nodeRuntime
     (JObj [(''mimeType'', JStr (js ''text/html'')),
            (''body'', JObj [(''data'', JStr (js ''PHA-SGVsbG88L3A-PHA-V29ybGQ8L3A-''))])]) None
     = Inr (js ''Hello'' @ [LF] @ js '' World'')"
    by (simp only: paragraphs_htmlToText paragraphs_stripQuoted paragraphs_stripFooters)
       (simp add: truncate_def maxCharsOf_def length_js)
  then show ?thesis
    by (simp add: js_def LF_def)
qed


text \<open>
  C8, amended. For a payload that is one HTML part whose decoded content is
  \<^verbatim>\<open><p>Hello</p><p>World</p>\<close>, the result is \<^verbatim>\<open>Hello\n World\<close>: each closing \<^verbatim>\<open></p>\<close> becomes
  one newline and each opening \<^verbatim>\<open><p>\<close> one space, so no two newlines meet for the blank-line
  rule, and \<open>trim\<close> removes the space in front and the newline at the end.
\<close>

theorem html_paragraphs_sanitized:
  "d \<noteq> [] \<Longrightarrow>
   fromBase64 rt (replace (replace d dashRegex (js ''+'')) underscoreRegex (js ''/''))
     = js ''<p>Hello</p><p>World</p>'' \<Longrightarrow>
   makeEmailBodyLLMSafe rt
     (JObj [(''mimeType'', JStr (js ''text/html'')), (''body'', JObj [(''data'', JStr d)])]) None
     = Inr (js ''Hello'' @ [LF] @ js '' World'')"
proof -
  assume d: "d \<noteq> []"
    and html: "fromBase64 rt (replace (replace d dashRegex (js ''+'')) underscoreRegex (js ''/''))
       = js ''<p>Hello</p><p>World</p>''"
  have ne: "js ''<p>Hello</p><p>World</p>'' \<noteq> []" by (simp add: js_def)
  have "makeEmailBodyLLMSafe rt
     (JObj [(''mimeType'', JStr (js ''text/html'')), (''body'', JObj [(''data'', JStr d)])]) None
     = Inr (truncate (maxCharsOf None)
         (stripFooters (stripQuoted (htmlToText (js ''<p>Hello</p><p>World</p>'')))))"
    using makeEmailBodyLLMSafe_stages [OF _ refl refl, where t = "[]"
        and h = "js ''<p>Hello</p><p>World</p>''" and rt = rt
        and payload = "JObj [(''mimeType'', JStr (js ''text/html'')), (''body'', JObj [(''data'', JStr d)])]"]
    by (simp add: extractPart_html_leaf [OF d] html ne)
  then show ?thesis
    by (simp only: paragraphs_htmlToText paragraphs_stripQuoted paragraphs_stripFooters)
       (simp add: truncate_def maxCharsOf_def length_js)
qed

theorem html_paragraphs_sanitized_witness:
  "makeEmailBodyLLMSafe nodeRuntime
     (JObj [(''mimeType'', JStr (js ''text/html'')),
            (''body'', JObj [(''data'', JStr (js ''PHA-SGVsbG88L3A-PHA-V29ybGQ8L3A-''))])]) None
     = Inr (js ''Hello'' @ [LF] @ js '' World'')"
proof -
  have "js ''PHA-SGVsbG88L3A-PHA-V29ybGQ8L3A-'' \<noteq> []" by (simp add: js_def)
  from html_paragraphs_sanitized [OF this paragraphs_decoded] show ?thesis .
qed


section \<open>Properties of the stripping stages\<close>

lemma firstMatch_None:
  "firstMatch re s i cs = None \<longleftrightarrow>
     (\<forall>p. i \<le> p \<and> p \<le> i + length cs \<longrightarrow> matcher re s Some p = None)"
proof (induction cs arbitrary: i)
  case Nil
  then show ?case by (auto split: option.splits)
next
  case (Cons c cs)
  show ?case
  proof (cases "matcher re s Some i")
    case None
    have "(\<forall>p. i \<le> p \<and> p \<le> i + length (c # cs) \<longrightarrow> matcher re s Some p = None)
        \<longleftrightarrow> (\<forall>p. Suc i \<le> p \<and> p \<le> Suc i + length cs \<longrightarrow> matcher re s Some p = None)"
      (is "?L \<longleftrightarrow> ?R")
    proof
      assume ?L
      then show ?R by simp
    next
      assume R: ?R
      show ?L
      proof (intro allI impI)
        fix p
        assume p: "i \<le> p \<and> p \<le> i + length (c # cs)"
        show "matcher re s Some p = None"
        proof (cases "p = i")
          case True
          with None show ?thesis by simp
        next
          case False
          with p have "Suc i \<le> p \<and> p \<le> Suc i + length cs" by simp
          with R show ?thesis by blast
        qed
      qed
    qed
    with None Cons.IH [of "Suc i"] show ?thesis by simp
  next
    case (Some e)
    then show ?thesis by auto
  qed
qed

lemma firstMatch_Some:
  "firstMatch re s i cs = Some (p, e) \<Longrightarrow>
     i \<le> p \<and> p \<le> i + length cs \<and> matcher re s Some p = Some e \<and>
     (\<forall>q. i \<le> q \<and> q < p \<longrightarrow> matcher re s Some q = None)"
proof (induction cs arbitrary: i)
  case Nil
  then show ?case by (auto split: option.splits)
next
  case (Cons c cs)
  show ?case
  proof (cases "matcher re s Some i")
    case None
    with Cons.prems have "firstMatch re s (Suc i) cs = Some (p, e)" by simp
    from Cons.IH [OF this]
    have ih: "Suc i \<le> p" "p \<le> Suc i + length cs" "matcher re s Some p = Some e"
      "\<forall>q. Suc i \<le> q \<and> q < p \<longrightarrow> matcher re s Some q = None"
      by simp_all
    have "matcher re s Some q = None" if "i \<le> q \<and> q < p" for q
    proof (cases "q = i")
      case True
      with None show ?thesis by simp
    next
      case False
      with that have "Suc i \<le> q \<and> q < p" by simp
      with ih(4) show ?thesis by blast
    qed
    with ih show ?thesis by simp
  next
    case (Some a)
    with Cons.prems show ?thesis by auto
  qed
qed

lemma search_none: "search s re = - 1 \<longleftrightarrow> (\<forall>i. \<not> matchesAt re s i)"
proof (cases "firstMatch re s 0 s")
  case None
  then show ?thesis
    using firstMatch_None [of re s 0 s] by (auto simp: search_def matchesAt_def)
next
  case (Some pe)
  obtain p e where pe: "pe = (p, e)" by (cases pe)
  from firstMatch_Some [of re s 0 s p e] Some pe have "matchesAt re s p"
    by (simp add: matchesAt_def)
  with Some pe show ?thesis by (auto simp: search_def)
qed

lemma search_least:
  assumes "matchesAt re s i"
  shows "search s re = int (LEAST i. matchesAt re s i)"
proof (cases "firstMatch re s 0 s")
  case None
  with assms firstMatch_None [of re s 0 s] show ?thesis
    by (auto simp: matchesAt_def)
next
  case (Some pe)
  obtain p e where pe: "pe = (p, e)" by (cases pe)
  from firstMatch_Some [of re s 0 s p e] Some pe
  have p: "matchesAt re s p" and least: "\<forall>q<p. \<not> matchesAt re s q"
    by (simp_all add: matchesAt_def)
  have "(LEAST i. matchesAt re s i) = p"
  proof (rule Least_equality)
    show "matchesAt re s p" by (rule p)
  next
    fix y assume "matchesAt re s y"
    with least show "p \<le> y" by (meson not_le)
  qed
  with Some pe show ?thesis by (simp add: search_def)
qed

lemma cutAtMarker_first_pattern:
  "cutAtMarker markers s =
     (case find (\<lambda>re. \<exists>i. matchesAt re s i) markers of
        None \<Rightarrow> None
      | Some re \<Rightarrow> Some (trim (take (LEAST i. matchesAt re s i) s)))"
proof (induction markers)
  case Nil
  show ?case by simp
next
  case (Cons re res)
  show ?case
  proof (cases "\<exists>i. matchesAt re s i")
    case True
    then obtain i where "matchesAt re s i" ..
    from search_least [OF this] True show ?thesis
      by (simp add: Let_def slice_prefix)
  next
    case False
    with search_none [of s re] have "search s re = - 1" by simp
    with False Cons.IH show ?thesis
      by auto
  qed
qed

lemma quotedReply_searches: "map (search quotedReply) quotedMarkers = [10, 2, - 1, - 1]"
  by code_simp

lemma quotedReply_stripQuoted: "stripQuoted quotedReply = js ''a'' @ [LF] @ js ''From: x''"
  by code_simp

lemma quotedReply_specStripQuoted: "specStripQuoted quotedReply = js ''a''"
  by code_simp

lemma footedText_searches: "map (search footedText) footerMarkers = [- 1, 26, - 1, 4, - 1]"
  by code_simp

lemma footedText_stripFooters: "stripFooters footedText = js ''Hi. To unsubscribe click.''"
  by code_simp

lemma footedText_specStripFooters: "specStripFooters footedText = js ''Hi.''"
  by code_simp

lemma quotedReply_extracted:
  "extractPart nodeRuntime (if truthy quotedReplyPayload then quotedReplyPayload else JObj [])
     = Inr (quotedReply, [])"
  by code_simp

lemma quotedReply_trim: "trim quotedReply = quotedReply \<and> quotedReply \<noteq> []"
  by code_simp

lemma quotedReply_cut_stripFooters:
  "stripFooters (js ''a'' @ [LF] @ js ''From: x'') = js ''a'' @ [LF] @ js ''From: x''"
  by code_simp

lemma quotedReply_sanitized:
  "makeEmailBodyLLMSafe nodeRuntime quotedReplyPayload None = Inr (js ''a'' @ [LF] @ js ''From: x'')"
proof -
  have "makeEmailBodyLLMSafe nodeRuntime quotedReplyPayload None
      = Inr (truncate (maxCharsOf None) (stripFooters (stripQuoted quotedReply)))"
    using makeEmailBodyLLMSafe_stages [OF quotedReply_extracted refl refl, of None]
    by (simp add: quotedReply_trim)
  also have "\<dots> = Inr (truncate (maxCharsOf None) (js ''a'' @ [LF] @ js ''From: x''))"
    by (simp only: quotedReply_stripQuoted quotedReply_cut_stripFooters)
  also have "\<dots> = Inr (js ''a'' @ [LF] @ js ''From: x'')"
    by (simp add: truncate_def maxCharsOf_def length_js)
  finally show ?thesis .
qed

lemma footedText_extracted:
  "extractPart nodeRuntime (if truthy footedTextPayload then footedTextPayload else JObj [])
     = Inr (footedText, [])"
  by code_simp

lemma footedText_trim: "trim footedText = footedText \<and> footedText \<noteq> []"
  by code_simp

lemma footedText_stripQuoted: "stripQuoted footedText = footedText"
  by code_simp

lemma footedText_sanitized:
  "makeEmailBodyLLMSafe nodeRuntime footedTextPayload None = Inr (js ''Hi. To unsubscribe click.'')"
proof -
  have "makeEmailBodyLLMSafe nodeRuntime footedTextPayload None
      = Inr (truncate (maxCharsOf None) (stripFooters (stripQuoted footedText)))"
    using makeEmailBodyLLMSafe_stages [OF footedText_extracted refl refl, of None]
    by (simp add: footedText_trim)
  also have "\<dots> = Inr (truncate (maxCharsOf None) (js ''Hi. To unsubscribe click.''))"
    by (simp only: footedText_stripQuoted footedText_stripFooters)
  also have "\<dots> = Inr (js ''Hi. To unsubscribe click.'')"
    by (simp add: truncate_def maxCharsOf_def length_js)
  finally show ?thesis .
qed


text \<open>
  C2, as stated, fails. In \<open>quotedReply\<close> the second pattern matches at index 2 and the first
  at index 10; \<open>stripQuoted\<close> cuts at 10, not at the earliest match. In \<open>footedText\<close> the
  fourth pattern matches at 4 and the second at 26; \<open>stripFooters\<close> cuts at 26. The whole
  pipeline returns these cuts for the two payloads.
\<close>

theorem strip_not_at_earliest_match:
  "map (search quotedReply) quotedMarkers = [10, 2, - 1, - 1] \<and>
   stripQuoted quotedReply = js ''a'' @ [LF] @ js ''From: x'' \<and>
   specStripQuoted quotedReply = js ''a'' \<and>
   stripQuoted quotedReply \<noteq> specStripQuoted quotedReply \<and>
   makeEmailBodyLLMSafe nodeRuntime quotedReplyPayload None = Inr (js ''a'' @ [LF] @ js ''From: x'') \<and>
   map (search footedText) footerMarkers = [- 1, 26, - 1, 4, - 1] \<and>
   stripFooters footedText = js ''Hi. To unsubscribe click.'' \<and>
   specStripFooters footedText = js ''Hi.'' \<and>
   stripFooters footedText \<noteq> specStripFooters footedText \<and>
   makeEmailBodyLLMSafe nodeRuntime footedTextPayload None = Inr (js ''Hi. To unsubscribe click.'')"
  by (simp add: quotedReply_searches quotedReply_stripQuoted quotedReply_specStripQuoted
      footedText_searches footedText_stripFooters footedText_specStripFooters
      quotedReply_sanitized footedText_sanitized)
     (simp add: js_def)


text \<open>
  C2, amended. Both stages take the first pattern, in the order of the list, that matches
  anywhere in the text, and cut the text at the earliest match of that pattern; the result
  is what stands before the cut, trimmed. When no pattern matches, \<open>stripQuoted\<close> returns
  the trimmed text and \<open>stripFooters\<close> the text as it is.
\<close>

theorem strip_cuts_at_first_listed_pattern:
  "stripQuoted s =
     (case find (\<lambda>re. \<exists>i. matchesAt re s i) quotedMarkers of
        None \<Rightarrow> trim s
      | Some re \<Rightarrow> trim (take (LEAST i. matchesAt re s i) s)) \<and>
   stripFooters s =
     (case find (\<lambda>re. \<exists>i. matchesAt re s i) footerMarkers of
        None \<Rightarrow> s
      | Some re \<Rightarrow> trim (take (LEAST i. matchesAt re s i) s))"
  by (simp add: stripQuoted_def stripFooters_def cutAtMarker_first_pattern split: option.splits)



section \<open>Properties of the bounding stage\<close>

lemma makeEmailBodyLLMSafe_bound:
  "extractPart rt (if truthy payload then payload else JObj []) = Inr (t, h) \<Longrightarrow>
     makeEmailBodyLLMSafe rt payload opts = Inr (truncate (maxCharsOf opts) (cleanedBody t h))"
  by (simp add: makeEmailBodyLLMSafe_def cleanedBody_def Let_def)

lemma no_marker_in_a_run:
  "re \<in> set quotedMarkers \<union> set footerMarkers \<Longrightarrow>
     matcher re (replicate n (of_char CHR ''a'')) Some i = None"
  by (auto simp add: quotedMarkers_def footerMarkers_def canonicalize_def cong: conj_cong)

lemma cutAtMarker_none:
  "(\<And>re i. re \<in> set markers \<Longrightarrow> matcher re s Some i = None) \<Longrightarrow> cutAtMarker markers s = None"
proof (induction markers)
  case Nil
  show ?case by simp
next
  case (Cons re res)
  have "firstMatch re s 0 s = None"
    unfolding firstMatch_None using Cons.prems by simp
  then have "search s re = - 1" by (simp add: search_def)
  with Cons show ?case by simp
qed

lemma longText_cleaned: "cleanedBody longText [] = longText \<and> length longText = 7000"
proof -
  have "dropWhile isWhiteSpace (replicate n (of_char CHR ''a'')) = replicate n (of_char CHR ''a'')"
    for n
    by (cases n) (simp_all add: isWhiteSpace_def)
  then have tr: "trim longText = longText"
    by (simp add: trim_def longText_def)
  have "cutAtMarker quotedMarkers longText = None"
    unfolding longText_def by (rule cutAtMarker_none) (rule no_marker_in_a_run, simp)
  then have q: "stripQuoted longText = longText"
    by (simp add: stripQuoted_def tr)
  have "cutAtMarker footerMarkers longText = None"
    unfolding longText_def by (rule cutAtMarker_none) (rule no_marker_in_a_run, simp)
  then have f: "stripFooters longText = longText"
    by (simp add: stripFooters_def)
  have ne: "longText \<noteq> []" by (simp add: longText_def)
  show ?thesis
    by (simp add: cleanedBody_def Let_def tr q f ne) (simp add: longText_def)
qed


lemma longText_extracted:
  "extractPart longTextRuntime
     (JObj [(''mimeType'', JStr (js ''text/plain'')), (''body'', JObj [(''data'', JStr (js ''eA''))])])
   = Inr (longText, [])"
  by (simp add: extractPart.simps optProp_def decodeBody_def longTextRuntime_def js_not_Nil)

lemma hello_cleaned: "cleanedBody (js ''hello'') [] = js ''hello''"
  by (simp add: cleanedBody_def Let_def hello_trim hello_stripQuoted hello_stripFooters js_not_Nil)

text \<open>
  C6, as stated, fails for a budget that is no count: with \<open>maxChars = -1\<close> the text \<^verbatim>\<open>hello\<close>,
  which is longer than the budget, comes back as \<^verbatim>\<open>hell\<close> and the marker.
\<close>

theorem sanitized_negative_maxChars:
  "makeEmailBodyLLMSafe nodeRuntime
     (JObj [(''mimeType'', JStr (js ''text/plain'')),
            (''body'', JObj [(''data'', JStr (js ''aGVsbG8''))])])
     (Some \<lparr>maxChars = Some (- 1)\<rparr>) = Inr (js ''hell'' @ [LF, LF] @ js ''[truncated for model]'') \<and>
   js ''hell'' \<noteq> take (nat (- 1)) (js ''hello'')"
  by (simp only: hello_sanitized)
     (simp add: maxCharsOf_def truncate_def slice_def truncationMarker_def js_def)


text \<open>
  C6, amended. With the configured \<open>maxChars \<ge> 0\<close> (6000 when the options or the field are
  absent), \<open>makeEmailBodyLLMSafe\<close> returns a cleaned text longer than \<open>maxChars\<close> as exactly
  its first \<open>maxChars\<close> characters followed by the marker \<^verbatim>\<open>\n\n[truncated for model]\<close>, and a
  cleaned text of at most \<open>maxChars\<close> characters unchanged.
\<close>

theorem sanitized_cut_to_maxChars:
  "extractPart rt (if truthy payload then payload else JObj []) = Inr (t, h) \<Longrightarrow>
   0 \<le> maxCharsOf opts \<Longrightarrow>
     (maxCharsOf opts < int (length (cleanedBody t h)) \<longrightarrow>
        makeEmailBodyLLMSafe rt payload opts =
          Inr (take (nat (maxCharsOf opts)) (cleanedBody t h) @ [LF, LF] @ js ''[truncated for model]'') \<and>
        length (take (nat (maxCharsOf opts)) (cleanedBody t h)) = nat (maxCharsOf opts)) \<and>
     (int (length (cleanedBody t h)) \<le> maxCharsOf opts \<longrightarrow>
        makeEmailBodyLLMSafe rt payload opts = Inr (cleanedBody t h)) \<and>
     maxCharsOf None = 6000 \<and> maxCharsOf (Some \<lparr>maxChars = None\<rparr>) = 6000 \<and>
     maxCharsOf (Some \<lparr>maxChars = Some n\<rparr>) = n"
  by (auto simp add: makeEmailBodyLLMSafe_bound truncate_def slice_prefix maxCharsOf_def
      truncationMarker_def)

theorem sanitized_cut_to_maxChars_witness:
  "makeEmailBodyLLMSafe longTextRuntime
     (JObj [(''mimeType'', JStr (js ''text/plain'')), (''body'', JObj [(''data'', JStr (js ''eA''))])])
     (Some \<lparr>maxChars = Some 6000\<rparr>)
     = Inr (take 6000 longText @ [LF, LF] @ js ''[truncated for model]'') \<and>
   makeEmailBodyLLMSafe longTextRuntime
     (JObj [(''mimeType'', JStr (js ''text/plain'')), (''body'', JObj [(''data'', JStr (js ''eA''))])])
     None
     = Inr (take 6000 longText @ [LF, LF] @ js ''[truncated for model]'') \<and>
   length longText = 7000 \<and> length (take 6000 longText) = 6000 \<and>
   makeEmailBodyLLMSafe nodeRuntime
     (JObj [(''mimeType'', JStr (js ''text/plain'')),
            (''body'', JObj [(''data'', JStr (js ''aGVsbG8''))])])
     (Some \<lparr>maxChars = Some 3\<rparr>) = Inr (js ''hel'' @ [LF, LF] @ js ''[truncated for model]'') \<and>
   makeEmailBodyLLMSafe nodeRuntime
     (JObj [(''mimeType'', JStr (js ''text/plain'')),
            (''body'', JObj [(''data'', JStr (js ''aGVsbG8''))])])
     (Some \<lparr>maxChars = Some 5\<rparr>) = Inr (js ''hello'')"
proof -
  have long: "extractPart longTextRuntime
     (if truthy (JObj [(''mimeType'', JStr (js ''text/plain'')),
                       (''body'', JObj [(''data'', JStr (js ''eA''))])])
      then JObj [(''mimeType'', JStr (js ''text/plain'')), (''body'', JObj [(''data'', JStr (js ''eA''))])]
      else JObj []) = Inr (longText, [])"
    by (simp add: longText_extracted)
  have hello: "extractPart nodeRuntime
     (if truthy (JObj [(''mimeType'', JStr (js ''text/plain'')),
                       (''body'', JObj [(''data'', JStr (js ''aGVsbG8''))])])
      then JObj [(''mimeType'', JStr (js ''text/plain'')),
                 (''body'', JObj [(''data'', JStr (js ''aGVsbG8''))])]
      else JObj []) = Inr (js ''hello'', [])"
    by (simp add: hello_extracted)
  have b: "0 \<le> maxCharsOf (Some \<lparr>maxChars = Some 6000\<rparr>)" "0 \<le> maxCharsOf None"
    "0 \<le> maxCharsOf (Some \<lparr>maxChars = Some 3\<rparr>)" "0 \<le> maxCharsOf (Some \<lparr>maxChars = Some 5\<rparr>)"
    by (simp_all add: maxCharsOf_def)
  show ?thesis
    using sanitized_cut_to_maxChars [OF long b(1)] sanitized_cut_to_maxChars [OF long b(2)]
      sanitized_cut_to_maxChars [OF hello b(3)] sanitized_cut_to_maxChars [OF hello b(4)]
    by (simp add: longText_cleaned hello_cleaned maxCharsOf_def length_js) (simp add: js_def)
qed

section \<open>Totality of the sanitizer\<close>

lemma decodeBody_result:
  "truthy data \<Longrightarrow>
     decodeBody rt data =
       (if isString data
        then Inr (fromBase64 rt (replace (replace (case data of JStr d \<Rightarrow> d) dashRegex (js ''+''))
                                   underscoreRegex (js ''/'')))
        else Inl TypeError)"
  by (cases data) (simp_all add: decodeBody_def)

lemma extract_returns_iff:
  "(\<exists>r. extractPart rt part = Inr r) = wfPart part"
  "(\<exists>r. extractChildren rt acc ps = Inr r) = list_all wfPart ps"
proof (induction rt part and rt acc ps rule: extractPart_extractChildren.induct)
  case (1 rt part)
  show ?case
  proof (cases "truthy part")
    case False
    then show ?thesis by (simp add: extractPart.simps wfPart.simps)
  next
    case True
    define data where "data = optProp (getProp part ''body'') ''data''"
    define decoded where "decoded \<longleftrightarrow>
      (getProp part ''mimeType'' = JStr (js ''text/plain'') \<or>
       getProp part ''mimeType'' = JStr (js ''text/html'')) \<and> truthy data"
    define own where "own =
       (if getProp part ''mimeType'' = JStr (js ''text/plain'') \<and> truthy data
        then (case decodeBody rt data of Inl err \<Rightarrow> Inl err | Inr t \<Rightarrow> Inr (t, []))
        else if getProp part ''mimeType'' = JStr (js ''text/html'') \<and> truthy data
        then (case decodeBody rt data of Inl err \<Rightarrow> Inl err | Inr h \<Rightarrow> Inr ([], h))
        else Inr ([], []))"
    have step: "extractPart rt part =
        (case own of
           Inl err \<Rightarrow> Inl err
         | Inr acc \<Rightarrow>
             (case getProp part ''parts'' of JArr ps \<Rightarrow> extractChildren rt acc ps
              | _ \<Rightarrow> Inr acc))"
      unfolding own_def data_def
      by (subst extractPart.simps) (simp add: True Let_def)
    have wf: "wfPart part \<longleftrightarrow>
        (\<not> decoded \<or> isString data) \<and>
        (case getProp part ''parts'' of JArr ps \<Rightarrow> list_all wfPart ps | _ \<Rightarrow> True)"
      by (subst wfPart.simps) (auto simp: True decoded_def data_def)
    show ?thesis
    proof (cases "decoded \<and> \<not> isString data")
      case True
      then have "own = Inl TypeError"
        by (auto simp: own_def decoded_def decodeBody_result)
      with step True wf show ?thesis by simp
    next
      case False
      then have "\<exists>acc. own = Inr acc"
        by (auto simp: own_def decoded_def decodeBody_result)
      then obtain acc where own: "own = Inr acc" ..
      show ?thesis
      proof (cases "getProp part ''parts''")
        case (JArr ps)
        have "(\<exists>r. extractChildren rt acc ps = Inr r) = list_all wfPart ps"
          by (rule "1.IH" [OF _ refl refl refl _ JArr])
             (simp_all add: \<open>truthy part\<close> own [unfolded own_def data_def])
        with step own JArr wf False show ?thesis by simp
      qed (use step own wf False in simp_all)
    qed
  qed
next
  case (2 rt acc)
  show ?case by (simp add: extractPart.simps)
next
  case (3 rt acc p ps)
  show ?case
  proof (cases "extractPart rt p")
    case (Inl err)
    with "3.IH"(1) have "\<not> wfPart p" by auto
    with Inl show ?thesis by (simp add: extractPart.simps)
  next
    case (Inr child)
    with "3.IH"(1) have "wfPart p" by auto
    with Inr "3.IH"(2) [OF Inr] show ?thesis by (simp add: extractPart.simps)
  qed
qed

lemma empty_stripQuoted: "stripQuoted [] = []"
  by code_simp

lemma empty_stripFooters: "stripFooters [] = []"
  by code_simp

lemma extractPart_no_body:
  "map_of kvs ''body'' = None \<Longrightarrow> map_of kvs ''parts'' = None \<Longrightarrow>
     extractPart rt (JObj kvs) = Inr ([], [])"
  by (simp add: extractPart.simps optProp_def)

lemma sanitized_empty:
  assumes "extractPart rt (if truthy payload then payload else JObj []) = Inr ([], [])"
    and "0 \<le> maxCharsOf opts"
  shows "makeEmailBodyLLMSafe rt payload opts = Inr []"
  using makeEmailBodyLLMSafe_stages [OF assms(1) refl refl, of opts] assms(2)
  by (simp add: empty_stripQuoted empty_stripFooters truncate_def)


lemma sanitizer_raises_on_number_data:
  "makeEmailBodyLLMSafe rt
     (JObj [(''mimeType'', JStr (js ''text/plain'')), (''body'', JObj [(''data'', JNum 5)])]) opts
   = Inl TypeError"
  by (simp add: makeEmailBodyLLMSafe_def extractPart.simps optProp_def decodeBody_def)

lemma sanitized_empty_negative_budget:
  "makeEmailBodyLLMSafe rt (JObj []) (Some \<lparr>maxChars = Some (- 1)\<rparr>) = Inr truncationMarker"
proof -
  have "extractPart rt (if truthy (JObj []) then JObj [] else JObj []) = Inr ([], [])"
    by (simp add: extractPart_no_body)
  from makeEmailBodyLLMSafe_stages [OF this refl refl] show ?thesis
    by (simp add: empty_stripQuoted empty_stripFooters truncate_def maxCharsOf_def slice_def)
qed

text \<open>
  C1, as stated, fails. The payload is typed \<^verbatim>\<open>any\<close>: for a \<^verbatim>\<open>text/plain\<close> part whose
  \<open>body.data\<close> is the number 5, \<^verbatim>\<open>data.replace\<close> is no function and the call raises a
  TypeError. And with \<open>maxChars = -1\<close> the payload \<^verbatim>\<open>{}\<close> comes back as the truncation marker,
  not as the empty string.
\<close>

theorem sanitizer_raises_or_marks:
  "makeEmailBodyLLMSafe nodeRuntime
     (JObj [(''mimeType'', JStr (js ''text/plain'')), (''body'', JObj [(''data'', JNum 5)])]) None
   = Inl TypeError \<and>
   makeEmailBodyLLMSafe nodeRuntime (JObj []) (Some \<lparr>maxChars = Some (- 1)\<rparr>)
   = Inr ([LF, LF] @ js ''[truncated for model]'')"
  by (simp add: sanitizer_raises_on_number_data sanitized_empty_negative_budget
      truncationMarker_def)

text \<open>
  C1, amended. For every runtime decoder and all options, \<open>makeEmailBodyLLMSafe\<close> returns a
  string exactly on the payloads in which every \<open>body.data\<close> that gets decoded is a string
  (\<open>wfPart\<close>), and raises on the others; \<^verbatim>\<open>null\<close>, \<^verbatim>\<open>{}\<close>, parts without a body, any text in
  \<open>data\<close> and any nesting are among the former. For \<^verbatim>\<open>null\<close>, \<^verbatim>\<open>{}\<close> and
  \<^verbatim>\<open>{mimeType: 'text/plain'}\<close> the string is empty when the character budget is not negative.
\<close>

theorem sanitizer_total_on_string_data:
  "((\<exists>r. makeEmailBodyLLMSafe rt payload opts = Inr r) \<longleftrightarrow> wfPart payload) \<and>
   ((payload = JNull \<or> payload = JObj [] \<or>
     payload = JObj [(''mimeType'', JStr (js ''text/plain''))]) \<and> 0 \<le> maxCharsOf opts
    \<longrightarrow> makeEmailBodyLLMSafe rt payload opts = Inr [])"
proof
  have "wfPart (if truthy payload then payload else JObj []) = wfPart payload"
    by (simp add: wfPart.simps [of payload] wfPart.simps [of "JObj []"] optProp_def)
  with extract_returns_iff(1) [of rt "if truthy payload then payload else JObj []"]
  have "(\<exists>r. extractPart rt (if truthy payload then payload else JObj []) = Inr r)
      = wfPart payload"
    by simp
  moreover have "(\<exists>r. makeEmailBodyLLMSafe rt payload opts = Inr r)
      = (\<exists>r. extractPart rt (if truthy payload then payload else JObj []) = Inr r)"
    by (cases "extractPart rt (if truthy payload then payload else JObj [])")
       (auto simp: makeEmailBodyLLMSafe_def Let_def)
  ultimately show "(\<exists>r. makeEmailBodyLLMSafe rt payload opts = Inr r) \<longleftrightarrow> wfPart payload"
    by simp
next
  show "(payload = JNull \<or> payload = JObj [] \<or>
       payload = JObj [(''mimeType'', JStr (js ''text/plain''))]) \<and> 0 \<le> maxCharsOf opts
      \<longrightarrow> makeEmailBodyLLMSafe rt payload opts = Inr []"
  proof
    assume a: "(payload = JNull \<or> payload = JObj [] \<or>
       payload = JObj [(''mimeType'', JStr (js ''text/plain''))]) \<and> 0 \<le> maxCharsOf opts"
    then have "extractPart rt (if truthy payload then payload else JObj []) = Inr ([], [])"
      by (auto simp: extractPart_no_body)
    with a show "makeEmailBodyLLMSafe rt payload opts = Inr []"
      by (simp add: sanitized_empty)
  qed
qed

theorem sanitizer_total_on_string_data_witness:
  "(\<exists>r. makeEmailBodyLLMSafe nodeRuntime nestedPayload None = Inr r) \<and>
   makeEmailBodyLLMSafe nodeRuntime JNull None = Inr [] \<and>
   makeEmailBodyLLMSafe nodeRuntime (JObj []) None = Inr [] \<and>
   makeEmailBodyLLMSafe nodeRuntime (JObj [(''mimeType'', JStr (js ''text/plain''))]) None = Inr []"
proof -
  have wf: "wfPart nestedPayload"
    by (simp add: nestedPayload_def wfPart.simps optProp_def js_def)
  have m: "0 \<le> maxCharsOf None" by (simp add: maxCharsOf_def)
  show ?thesis
    using sanitizer_total_on_string_data [of nodeRuntime nestedPayload None] wf
      sanitizer_total_on_string_data [of nodeRuntime JNull None]
      sanitizer_total_on_string_data [of nodeRuntime "JObj []" None]
      sanitizer_total_on_string_data
        [of nodeRuntime "JObj [(''mimeType'', JStr (js ''text/plain''))]" None] m
    by simp
qed


section \<open>Properties of the matcher and of the address validator\<close>

lemma lang_bounds: "lang r s i j \<Longrightarrow> i \<le> j \<and> (i \<le> length s \<longrightarrow> j \<le> length s)"
proof (induction r arbitrary: i j)
  case (Seq a b)
  then obtain m where "lang a s i m" "lang b s m j" by auto
  with Seq.IH [of i m] Seq.IH(2) [of m j] show ?case by auto
next
  case (Star g a)
  then have "rtranclp (lang a s) i j" by simp
  then show ?case
  proof (induction rule: rtranclp_induct)
    case base
    show ?case by simp
  next
    case (step y z)
    with Star.IH [of y z] show ?case by auto
  qed
qed auto

lemma rtranclp_first_proper_step:
  assumes "rtranclp R i j"
  shows "j = i \<or> (\<exists>m. R i m \<and> m \<noteq> i \<and> rtranclp R m j)"
  using assms
proof (induction rule: converse_rtranclp_induct)
  case base
  show ?case by simp
next
  case (step y z)
  show ?case
  proof (cases "z = y")
    case True
    with step.IH show ?thesis by simp
  next
    case False
    with step.hyps show ?thesis by blast
  qed
qed

lemma repeatMatcher_complete:
  assumes ma: "\<And>d i. i \<le> length s \<Longrightarrow> (ma d i \<noteq> None) = (\<exists>j. R i j \<and> d j \<noteq> None)"
    and bounds: "\<And>i j. R i j \<Longrightarrow> i \<le> j \<and> (i \<le> length s \<longrightarrow> j \<le> length s)"
  shows "i \<le> length s \<Longrightarrow> length s - i \<le> n \<Longrightarrow>
     (repeatMatcher n ma greedy k i \<noteq> None) = (\<exists>j. rtranclp R i j \<and> k j \<noteq> None)"
proof (induction n arbitrary: i)
  case 0
  then have i: "i = length s" by simp
  have "rtranclp R i j \<Longrightarrow> j = i" for j
  proof (induction rule: rtranclp_induct)
    case base
    show ?case by simp
  next
    case (step y z)
    with bounds [of y z] i show ?case by simp
  qed
  then show ?case by auto
next
  case (Suc n)
  define d where "d = (\<lambda>j. if j = i then None else repeatMatcher n ma greedy k j)"
  have step: "(ma d i \<noteq> None) = (\<exists>m. R i m \<and> m \<noteq> i \<and> (\<exists>j. rtranclp R m j \<and> k j \<noteq> None))"
  proof -
    have "(d m \<noteq> None) = (m \<noteq> i \<and> (\<exists>j. rtranclp R m j \<and> k j \<noteq> None))" if "R i m" for m
    proof (cases "m = i")
      case True
      then show ?thesis by (simp add: d_def)
    next
      case False
      from bounds [OF that] Suc.prems False have "m \<le> length s" "length s - m \<le> n"
        by auto
      from Suc.IH [OF this] False show ?thesis by (simp add: d_def)
    qed
    then have "(\<exists>m. R i m \<and> d m \<noteq> None)
        = (\<exists>m. R i m \<and> m \<noteq> i \<and> (\<exists>j. rtranclp R m j \<and> k j \<noteq> None))"
      by blast
    with ma [OF Suc.prems(1), of d] show ?thesis by (simp only:)
  qed
  have "(repeatMatcher (Suc n) ma greedy k i \<noteq> None) = (ma d i \<noteq> None \<or> k i \<noteq> None)"
    by (auto simp: d_def Let_def split: option.splits)
  also have "\<dots> = (\<exists>j. rtranclp R i j \<and> k j \<noteq> None)"
  proof
    assume "ma d i \<noteq> None \<or> k i \<noteq> None"
    then show "\<exists>j. rtranclp R i j \<and> k j \<noteq> None"
    proof
      assume "ma d i \<noteq> None"
      with step obtain m j where "R i m" "rtranclp R m j" "k j \<noteq> None" by auto
      then show ?thesis by (meson converse_rtranclp_into_rtranclp)
    next
      assume "k i \<noteq> None"
      then show ?thesis by blast
    qed
  next
    assume "\<exists>j. rtranclp R i j \<and> k j \<noteq> None"
    then obtain j where j: "rtranclp R i j" "k j \<noteq> None" by blast
    from rtranclp_first_proper_step [OF j(1)] show "ma d i \<noteq> None \<or> k i \<noteq> None"
    proof
      assume "j = i"
      with j show ?thesis by simp
    next
      assume "\<exists>m. R i m \<and> m \<noteq> i \<and> rtranclp R m j"
      with j(2) step show ?thesis by blast
    qed
  qed
  finally show ?case .
qed

lemma matcher_complete:
  "i \<le> length s \<Longrightarrow> (matcher r s k i \<noteq> None) = (\<exists>j. lang r s i j \<and> k j \<noteq> None)"
proof (induction r arbitrary: k i)
  case (Chr P)
  show ?case by auto
next
  case (Seq a b)
  have "(matcher (Seq a b) s k i \<noteq> None) = (\<exists>m. lang a s i m \<and> matcher b s k m \<noteq> None)"
    using Seq.IH(1) [OF Seq.prems] by simp
  also have "\<dots> = (\<exists>m. lang a s i m \<and> (\<exists>j. lang b s m j \<and> k j \<noteq> None))"
  proof -
    have "(matcher b s k m \<noteq> None) = (\<exists>j. lang b s m j \<and> k j \<noteq> None)" if "lang a s i m" for m
      using lang_bounds [OF that] Seq.prems Seq.IH(2) [of m k] by simp
    then show ?thesis by blast
  qed
  finally show ?case by auto
next
  case (Alt a b)
  from Alt.IH(1) [OF Alt.prems, of k] Alt.IH(2) [OF Alt.prems, of k] show ?case
    by (auto split: option.splits)
next
  case (Star g a)
  have "(repeatMatcher (length s - i) (\<lambda>d j. matcher a s d j) g k i \<noteq> None)
      = (\<exists>j. rtranclp (lang a s) i j \<and> k j \<noteq> None)"
  proof (rule repeatMatcher_complete [where s = s])
    show "(matcher a s d i \<noteq> None) = (\<exists>j. lang a s i j \<and> d j \<noteq> None)" if "i \<le> length s" for d i
      using Star.IH [OF that] .
    show "i \<le> j \<and> (i \<le> length s \<longrightarrow> j \<le> length s)" if "lang a s i j" for i j
      using lang_bounds [OF that] .
  qed (use Star.prems in simp_all)
  then show ?case by simp
qed auto


lemma test_iff_lang: "test re s \<longleftrightarrow> (\<exists>i j. i \<le> length s \<and> lang re s i j)"
proof -
  have "test re s \<longleftrightarrow> (\<exists>p. p \<le> length s \<and> matcher re s Some p \<noteq> None)"
    using firstMatch_None [of re s 0 s] by (auto simp: test_def)
  moreover have "(p \<le> length s \<and> matcher re s Some p \<noteq> None)
      = (p \<le> length s \<and> (\<exists>j. lang re s p j))" for p
    using matcher_complete [of p s re Some] by auto
  ultimately show ?thesis by auto
qed

lemma star_Chr:
  "rtranclp (lang (Chr P) s) i j \<longleftrightarrow>
     i \<le> j \<and> (i < j \<longrightarrow> j \<le> length s) \<and> (\<forall>k. i \<le> k \<and> k < j \<longrightarrow> P (s ! k))"
proof
  assume "rtranclp (lang (Chr P) s) i j"
  then show "i \<le> j \<and> (i < j \<longrightarrow> j \<le> length s) \<and> (\<forall>k. i \<le> k \<and> k < j \<longrightarrow> P (s ! k))"
  proof (induction rule: rtranclp_induct)
    case base
    show ?case by auto
  next
    case (step y z)
    then show ?case by (auto simp: less_Suc_eq)
  qed
next
  assume "i \<le> j \<and> (i < j \<longrightarrow> j \<le> length s) \<and> (\<forall>k. i \<le> k \<and> k < j \<longrightarrow> P (s ! k))"
  then show "rtranclp (lang (Chr P) s) i j"
  proof (induction j)
    case 0
    then show ?case by simp
  next
    case (Suc j)
    show ?case
    proof (cases "i = Suc j")
      case True
      then show ?thesis by simp
    next
      case False
      with Suc.prems have "i \<le> j" "Suc j \<le> length s" "P (s ! j)" by auto
      moreover from Suc.prems \<open>i \<le> j\<close> have "rtranclp (lang (Chr P) s) i j"
        by (intro Suc.IH) auto
      ultimately show ?thesis
        by (auto intro: rtranclp.rtrancl_into_rtrancl)
    qed
  qed
qed

lemma plus_Chr:
  "lang (Plus (Chr P)) s i j \<longleftrightarrow>
     i < j \<and> j \<le> length s \<and> (\<forall>k. i \<le> k \<and> k < j \<longrightarrow> P (s ! k))"
proof -
  have "lang (Plus (Chr P)) s i j \<longleftrightarrow>
      i < length s \<and> P (s ! i) \<and> rtranclp (lang (Chr P) s) (Suc i) j"
    by (simp add: Plus_def)
  also have "\<dots> \<longleftrightarrow> i < j \<and> j \<le> length s \<and> (\<forall>k. i \<le> k \<and> k < j \<longrightarrow> P (s ! k))"
    (is "?A \<longleftrightarrow> ?B")
  proof
    assume a: ?A
    then have b: "i < length s" "P (s ! i)" "Suc i \<le> j"
      "\<forall>k. Suc i \<le> k \<and> k < j \<longrightarrow> P (s ! k)" and c: "Suc i < j \<longrightarrow> j \<le> length s"
      unfolding star_Chr by simp_all
    have "P (s ! k)" if "i \<le> k \<and> k < j" for k
    proof (cases "k = i")
      case True
      with b show ?thesis by simp
    next
      case False
      with that have "Suc i \<le> k \<and> k < j" by simp
      with b show ?thesis by blast
    qed
    moreover from b c have "j \<le> length s" by (cases "Suc i = j") auto
    ultimately show ?B using b by simp
  next
    assume ?B
    then show ?A unfolding star_Chr by auto
  qed
  finally show ?thesis .
qed

lemma lang_emailRegex:
  "lang emailRegex e i j \<longleftrightarrow>
     i = 0 \<and> j = length e \<and>
     (\<exists>a b. 0 < a \<and> a < length e \<and> e ! a = AT \<and> Suc a < b \<and> b < length e \<and> e ! b = DOT \<and>
        Suc b < length e \<and>
        (\<forall>k. k < a \<longrightarrow> notSpaceAt (e ! k)) \<and>
        (\<forall>k. Suc a \<le> k \<and> k < b \<longrightarrow> notSpaceAt (e ! k)) \<and>
        (\<forall>k. Suc b \<le> k \<and> k < length e \<longrightarrow> notSpaceAt (e ! k)))"
  (is "?L \<longleftrightarrow> ?R")
proof
  assume ?L
  then obtain a b where
    "i = 0" "lang (Plus (Chr notSpaceAt)) e 0 a" "a < length e" "e ! a = AT"
    "lang (Plus (Chr notSpaceAt)) e (Suc a) b" "b < length e" "e ! b = DOT"
    "lang (Plus (Chr notSpaceAt)) e (Suc b) j" "j = length e"
    by (auto simp: emailRegex_def AT_def DOT_def)
  then have "i = 0 \<and> j = length e"
    "0 < a \<and> a < length e \<and> e ! a = AT \<and> Suc a < b \<and> b < length e \<and> e ! b = DOT \<and>
        Suc b < length e \<and>
        (\<forall>k. k < a \<longrightarrow> notSpaceAt (e ! k)) \<and>
        (\<forall>k. Suc a \<le> k \<and> k < b \<longrightarrow> notSpaceAt (e ! k)) \<and>
        (\<forall>k. Suc b \<le> k \<and> k < length e \<longrightarrow> notSpaceAt (e ! k))"
    unfolding plus_Chr by simp_all
  then show ?R by blast
next
  assume ?R
  then obtain a b where ab: "i = 0" "j = length e" "0 < a" "a < length e" "e ! a = AT"
    "Suc a < b" "b < length e" "e ! b = DOT" "Suc b < length e"
    "\<forall>k. k < a \<longrightarrow> notSpaceAt (e ! k)"
    "\<forall>k. Suc a \<le> k \<and> k < b \<longrightarrow> notSpaceAt (e ! k)"
    "\<forall>k. Suc b \<le> k \<and> k < length e \<longrightarrow> notSpaceAt (e ! k)"
    by blast
  have 1: "lang (Plus (Chr notSpaceAt)) e 0 a"
    unfolding plus_Chr using ab by simp
  have 2: "lang (Plus (Chr notSpaceAt)) e (Suc a) b"
    unfolding plus_Chr using ab by simp
  have 3: "lang (Plus (Chr notSpaceAt)) e (Suc b) (length e)"
    unfolding plus_Chr using ab by simp
  from 1 2 3 ab have "\<exists>m. lang (Plus (Chr notSpaceAt)) e 0 m \<and> m < length e \<and> e ! m = AT \<and>
      (\<exists>n. lang (Plus (Chr notSpaceAt)) e (Suc m) n \<and> n < length e \<and> e ! n = DOT \<and>
         lang (Plus (Chr notSpaceAt)) e (Suc n) (length e))"
    by blast
  then show ?L
    using ab(1,2) by (simp add: emailRegex_def AT_def DOT_def)
qed


lemma list_all_segment:
  assumes "i \<le> j" and "j \<le> length e"
  shows "list_all P (take (j - i) (drop i e)) \<longleftrightarrow> (\<forall>k. i \<le> k \<and> k < j \<longrightarrow> P (e ! k))"
proof
  assume l: "list_all P (take (j - i) (drop i e))"
  show "\<forall>k. i \<le> k \<and> k < j \<longrightarrow> P (e ! k)"
  proof (intro allI impI)
    fix k
    assume k: "i \<le> k \<and> k < j"
    then have lt: "k - i < j - i" by auto
    with assms have "k - i < length (take (j - i) (drop i e))" by simp
    with l have "P (take (j - i) (drop i e) ! (k - i))" by (simp add: list_all_length)
    moreover have "take (j - i) (drop i e) ! (k - i) = e ! k"
      using k assms lt by simp
    ultimately show "P (e ! k)" by simp
  qed
next
  assume r: "\<forall>k. i \<le> k \<and> k < j \<longrightarrow> P (e ! k)"
  show "list_all P (take (j - i) (drop i e))"
    unfolding list_all_length
  proof (intro allI impI)
    fix n
    assume "n < length (take (j - i) (drop i e))"
    with assms have n: "n < j - i" by simp
    then have "i \<le> i + n \<and> i + n < j" by simp
    with r have "P (e ! (i + n))" by blast
    with n assms show "P (take (j - i) (drop i e) ! n)" by simp
  qed
qed

lemma split_two:
  assumes "a < b" and "b < length e"
  shows "e = take a e @ [e ! a] @ take (b - Suc a) (drop (Suc a) e) @ [e ! b] @ drop (Suc b) e"
proof -
  from assms have a: "a < length e" by simp
  have 1: "e = take a e @ e ! a # drop (Suc a) e"
    using a by (rule id_take_nth_drop)
  from assms have "b - Suc a < length (drop (Suc a) e)" by simp
  from id_take_nth_drop [OF this]
  have "drop (Suc a) e = take (b - Suc a) (drop (Suc a) e) @ e ! b # drop (Suc b) e"
    using assms by (simp add: Suc_diff_Suc)
  with 1 show ?thesis by simp
qed

text \<open>
  C9, as stated, fails: \<^verbatim>\<open>a@b.\<close> and \<^verbatim>\<open>a@.b\<close> have the shape the claim describes, with a
  \<^verbatim>\<open>.\<close> in the domain, and the validator refuses both.
\<close>

theorem validateEmail_refuses_edge_dot:
  "specEmailShape (js ''a@b.'') \<and> \<not> validateEmail (js ''a@b.'') \<and>
   specEmailShape (js ''a@.b'') \<and> \<not> validateEmail (js ''a@.b'')"
  by code_simp

text \<open>
  C9, amended. \<open>validateEmail e\<close> is true exactly when \<open>e\<close> is a local part, \<^verbatim>\<open>@\<close>, and a
  domain of the form \<open>d1.d2\<close>, where the local part, \<open>d1\<close> and \<open>d2\<close> are non-empty and hold
  neither whitespace nor \<^verbatim>\<open>@\<close>: the domain needs a \<^verbatim>\<open>.\<close> that is neither its first nor its
  last character.
\<close>

theorem validateEmail_shape:
  "validateEmail e \<longleftrightarrow>
     (\<exists>l d1 d2. e = l @ js ''@'' @ d1 @ js ''.'' @ d2 \<and> l \<noteq> [] \<and> d1 \<noteq> [] \<and> d2 \<noteq> [] \<and>
        list_all notSpaceAt (l @ d1 @ d2))"
  (is "?L \<longleftrightarrow> ?R")
proof
  assume ?L
  then obtain i j where "lang emailRegex e i j"
    by (auto simp: validateEmail_def test_iff_lang)
  then obtain a b where ab: "0 < a" "a < length e" "e ! a = AT" "Suc a < b" "b < length e"
    "e ! b = DOT" "Suc b < length e"
    "\<forall>k. k < a \<longrightarrow> notSpaceAt (e ! k)"
    "\<forall>k. Suc a \<le> k \<and> k < b \<longrightarrow> notSpaceAt (e ! k)"
    "\<forall>k. Suc b \<le> k \<and> k < length e \<longrightarrow> notSpaceAt (e ! k)"
    unfolding lang_emailRegex by blast
  define l where "l = take a e"
  define d1 where "d1 = take (b - Suc a) (drop (Suc a) e)"
  define d2 where "d2 = drop (Suc b) e"
  from ab have "a < b" by simp
  from split_two [OF this ab(5)] ab(3,6)
  have e: "e = l @ js ''@'' @ d1 @ js ''.'' @ d2"
    by (simp add: l_def d1_def d2_def js_def AT_def DOT_def)
  have ne: "l \<noteq> []" "d1 \<noteq> []" "d2 \<noteq> []"
    using ab by (auto simp: l_def d1_def d2_def)
  have "list_all notSpaceAt (take (a - 0) (drop 0 e))"
    using ab by (subst list_all_segment) simp_all
  then have 1: "list_all notSpaceAt l" by (simp add: l_def)
  have 2: "list_all notSpaceAt d1"
    unfolding d1_def using ab by (subst list_all_segment) simp_all
  have "list_all notSpaceAt (take (length e - Suc b) (drop (Suc b) e))"
    using ab by (subst list_all_segment) simp_all
  then have 3: "list_all notSpaceAt d2" by (simp add: d2_def)
  from e ne 1 2 3 show ?R by auto
next
  assume ?R
  then obtain l d1 d2 where e: "e = l @ js ''@'' @ d1 @ js ''.'' @ d2"
    and ne: "l \<noteq> []" "d1 \<noteq> []" "d2 \<noteq> []"
    and ok: "list_all notSpaceAt l" "list_all notSpaceAt d1" "list_all notSpaceAt d2"
    by auto
  define a where "a = length l"
  define b where "b = Suc (length l + length d1)"
  have e': "e = l @ AT # d1 @ DOT # d2"
    using e by (simp add: js_def AT_def DOT_def)
  have "\<exists>a b. 0 < a \<and> a < length e \<and> e ! a = AT \<and> Suc a < b \<and> b < length e \<and> e ! b = DOT \<and>
        Suc b < length e \<and>
        (\<forall>k. k < a \<longrightarrow> notSpaceAt (e ! k)) \<and>
        (\<forall>k. Suc a \<le> k \<and> k < b \<longrightarrow> notSpaceAt (e ! k)) \<and>
        (\<forall>k. Suc b \<le> k \<and> k < length e \<longrightarrow> notSpaceAt (e ! k))"
  proof (rule exI [of _ a], rule exI [of _ b], intro conjI allI impI)
    show "0 < a" using ne by (simp add: a_def)
    show "a < length e" by (simp add: a_def e')
    show "Suc a < b" using ne by (simp add: a_def b_def)
    show "b < length e" by (simp add: b_def e')
    show "Suc b < length e" using ne by (simp add: b_def e')
    show "e ! a = AT" by (simp add: a_def e')
    show "e ! b = DOT"
      by (simp add: b_def e' nth_append nth_Cons')
    show "notSpaceAt (e ! k)" if "k < a" for k
      using that ok(1) by (simp add: a_def e' nth_append list_all_length)
    show "notSpaceAt (e ! k)" if "Suc a \<le> k \<and> k < b" for k
    proof -
      from that have "k - Suc a < length d1" by (auto simp: a_def b_def)
      with ok(2) have "notSpaceAt (d1 ! (k - Suc a))" by (simp add: list_all_length)
      moreover from that have "e ! k = d1 ! (k - Suc a)"
        by (auto simp: a_def b_def e' nth_append nth_Cons')
      ultimately show ?thesis by simp
    qed
    show "notSpaceAt (e ! k)" if "Suc b \<le> k \<and> k < length e" for k
    proof -
      from that have "k - Suc b < length d2" by (auto simp: b_def e')
      with ok(3) have "notSpaceAt (d2 ! (k - Suc b))" by (simp add: list_all_length)
      moreover from that have "e ! k = d2 ! (k - Suc b)"
        by (auto simp: b_def e' nth_append nth_Cons')
      ultimately show ?thesis by simp
    qed
  qed
  then have "lang emailRegex e 0 (length e)"
    unfolding lang_emailRegex by simp
  then show ?L
    unfolding validateEmail_def test_iff_lang by blast
qed


end
